theory Spec2Isabelle
  imports Complex_Main "HOL-Library.Sublist"
begin

section \<open>JavaScript values\<close>

text \<open>
  The application is TypeScript: at run time every value that crosses a form or the
  HTTP client is a JavaScript value. A number is a double: a finite value (every double
  is a real), one of the two infinities, or NaN. A string is a list of code units; the
  model uses HOL characters for them.
\<close>

datatype jsnumber = NaN | NegInf | Finite real | PosInf

datatype json =
    JUndefined
  | JNull
  | JBool bool
  | JNum jsnumber
  | JStr string
  | JArr "json list"
  | JObj "(string \<times> json) list"

text \<open>The comparison \<open>a < b\<close> of two JavaScript numbers; false whenever one is NaN.\<close>

fun num_lt :: "jsnumber \<Rightarrow> jsnumber \<Rightarrow> bool" where
  "num_lt NaN _ = False"
| "num_lt _ NaN = False"
| "num_lt (Finite a) (Finite b) = (a < b)"
| "num_lt NegInf NegInf = False"
| "num_lt NegInf _ = True"
| "num_lt _ NegInf = False"
| "num_lt PosInf _ = False"
| "num_lt _ PosInf = True"

text \<open>Property read \<open>obj[k]\<close> on an object literal: the key's value, or \<open>undefined\<close>.\<close>

definition get_field :: "json \<Rightarrow> string \<Rightarrow> json" where
  "get_field v k =
     (case v of
        JObj kvs \<Rightarrow> (case map_of kvs k of Some x \<Rightarrow> x | None \<Rightarrow> JUndefined)
      | _ \<Rightarrow> JUndefined)"

definition has_key :: "json \<Rightarrow> string \<Rightarrow> bool" where
  "has_key v k = (case v of JObj kvs \<Rightarrow> k \<in> set (map fst kvs) | _ \<Rightarrow> False)"

definition object_keys :: "json \<Rightarrow> string list" where
  "object_keys v = (case v of JObj kvs \<Rightarrow> map fst kvs | _ \<Rightarrow> [])"

text \<open>
  What a value becomes on the wire, that is the value its \<^verbatim>\<open>JSON.stringify\<close> text denotes:
  NaN and the infinities are written \<^verbatim>\<open>null\<close>, a member of an object whose value is
  \<^verbatim>\<open>undefined\<close> is left out, and an \<^verbatim>\<open>undefined\<close> element of an array is written \<^verbatim>\<open>null\<close>.
\<close>

fun json_wire :: "json \<Rightarrow> json" where
  "json_wire (JNum n) = (case n of Finite x \<Rightarrow> JNum (Finite x) | _ \<Rightarrow> JNull)"
| "json_wire (JArr xs) = JArr (map (\<lambda>x. if x = JUndefined then JNull else json_wire x) xs)"
| "json_wire (JObj kvs) =
     JObj (map (\<lambda>kv. (fst kv, json_wire (snd kv))) (filter (\<lambda>kv. snd kv \<noteq> JUndefined) kvs))"
| "json_wire v = v"


section \<open>The page title of the dashboard layout\<close>

text \<open>
  \<^verbatim>\<open>getPageTitle\<close> of the dashboard layout. \<^verbatim>\<open>routes\<close> is an object literal, so
  \<^verbatim>\<open>routes[pathname]\<close> reads an own property or, failing that, a member inherited from
  \<^verbatim>\<open>Object.prototype\<close> (a function or object, which is truthy and is not a string).
  \<^verbatim>\<open>Object.entries\<close> lists the own properties in insertion order.
\<close>

datatype title_value = Title string | ProtoMember string | NoValue

definition routes :: "(string \<times> string) list" where
  "routes =
    [(''/dashboard'', ''Dashboard''),
     (''/dashboard/event-types'', ''Event Types''),
     (''/dashboard/bookings'', ''Bookings''),
     (''/dashboard/availability'', ''Availability''),
     (''/dashboard/contacts'', ''Contacts''),
     (''/dashboard/workflows'', ''Workflows''),
     (''/dashboard/notifications'', ''Notifications''),
     (''/dashboard/integrations'', ''Integrations''),
     (''/dashboard/analytics'', ''Analytics''),
     (''/dashboard/settings'', ''Settings'')]"

definition object_prototype_members :: "string list" where
  "object_prototype_members =
    [''constructor'', ''hasOwnProperty'', ''isPrototypeOf'', ''propertyIsEnumerable'',
     ''toLocaleString'', ''toString'', ''valueOf'', ''__proto__'',
     ''__defineGetter__'', ''__defineSetter__'', ''__lookupGetter__'', ''__lookupSetter__'']"

definition routes_get :: "string \<Rightarrow> title_value" where
  "routes_get pathname =
     (case map_of routes pathname of
        Some t \<Rightarrow> Title t
      | None \<Rightarrow> if pathname \<in> set object_prototype_members then ProtoMember pathname
                else NoValue)"

fun truthy :: "title_value \<Rightarrow> bool" where
  "truthy (Title t) = (t \<noteq> [])"
| "truthy (ProtoMember _) = True"
| "truthy NoValue = False"

text \<open>The loop over \<^verbatim>\<open>Object.entries(routes)\<close>: the first entry that matches returns.\<close>

fun partial_match :: "(string \<times> string) list \<Rightarrow> string \<Rightarrow> string option" where
  "partial_match [] pathname = None"
| "partial_match ((route, title) # rest) pathname =
     (if prefix route pathname \<and> route \<noteq> ''/dashboard'' then Some title
      else partial_match rest pathname)"

definition getPageTitle :: "string \<Rightarrow> title_value" where
  "getPageTitle pathname =
     (if truthy (routes_get pathname) then routes_get pathname
      else case partial_match routes pathname of
             Some title \<Rightarrow> Title title
           | None \<Rightarrow> Title ''Dashboard'')"

text \<open>A pathname of the router's location begins with a slash.\<close>

definition is_pathname :: "string \<Rightarrow> bool" where
  "is_pathname p = prefix ''/'' p"


section \<open>Declared shapes: the interfaces of the API types\<close>

text \<open>
  A TypeScript interface says which fields a value has and of which type; a field
  declared with \<^verbatim>\<open>?\<close> may be absent. The interfaces below are transcribed from the
  API type declarations, each field with its optional flag and type, and \<open>conforms\<close>
  is what it means for a run-time value to have the declared shape.
\<close>

datatype tstype =
    TString
  | TNumber
  | TBoolean
  | TLit string
  | TUnion "tstype list"
  | TArray tstype
  | TRecord tstype
  | TObject "(string \<times> bool \<times> tstype) list"

fun conforms :: "tstype \<Rightarrow> json \<Rightarrow> bool" where
  "conforms TString v = (case v of JStr _ \<Rightarrow> True | _ \<Rightarrow> False)"
| "conforms TNumber v = (case v of JNum _ \<Rightarrow> True | _ \<Rightarrow> False)"
| "conforms TBoolean v = (case v of JBool _ \<Rightarrow> True | _ \<Rightarrow> False)"
| "conforms (TLit s) v = (v = JStr s)"
| "conforms (TUnion ts) v = list_ex (\<lambda>t. conforms t v) ts"
| "conforms (TArray t) v = (case v of JArr xs \<Rightarrow> list_all (conforms t) xs | _ \<Rightarrow> False)"
| "conforms (TRecord t) v =
     (case v of JObj kvs \<Rightarrow> list_all (\<lambda>kv. conforms t (snd kv)) kvs | _ \<Rightarrow> False)"
| "conforms (TObject fs) v =
     (case v of
        JObj kvs \<Rightarrow>
          list_all (\<lambda>f. if get_field v (fst f) = JUndefined then fst (snd f)
                         else conforms (snd (snd f)) (get_field v (fst f))) fs
      | _ \<Rightarrow> False)"

text \<open>The names of the fields an interface declares.\<close>

fun declared_fields :: "tstype \<Rightarrow> string list" where
  "declared_fields (TObject fs) = map fst fs"
| "declared_fields _ = []"

abbreviation required :: "string \<Rightarrow> tstype \<Rightarrow> string \<times> bool \<times> tstype" where
  "required k t \<equiv> (k, False, t)"

abbreviation optional :: "string \<Rightarrow> tstype \<Rightarrow> string \<times> bool \<times> tstype" where
  "optional k t \<equiv> (k, True, t)"

definition BlockedTime :: tstype where
  "BlockedTime = TObject
    [required ''id'' TString,
     required ''start_datetime'' TString,
     required ''end_datetime'' TString,
     required ''reason'' TString,
     required ''source''
       (TUnion [TLit ''manual'', TLit ''google_calendar'', TLit ''outlook_calendar'',
                TLit ''apple_calendar'', TLit ''external_sync'']),
     required ''source_display'' TString,
     required ''external_id'' TString,
     optional ''external_updated_at'' TString,
     required ''is_active'' TBoolean,
     required ''created_at'' TString,
     required ''updated_at'' TString]"

definition BufferTime :: tstype where
  "BufferTime = TObject
    [required ''default_buffer_before'' TNumber,
     required ''default_buffer_after'' TNumber,
     required ''minimum_gap'' TNumber,
     required ''slot_interval_minutes'' TNumber,
     required ''created_at'' TString,
     required ''updated_at'' TString]"

definition AvailableSlot :: tstype where
  "AvailableSlot = TObject
    [required ''start_time'' TString,
     required ''end_time'' TString,
     required ''duration_minutes'' TNumber,
     optional ''local_start_time'' TString,
     optional ''local_end_time'' TString,
     optional ''available_spots'' TNumber,
     optional ''invitee_times''
       (TRecord (TObject
          [required ''start_time'' TString,
           required ''end_time'' TString,
           required ''start_hour'' TNumber,
           required ''end_hour'' TNumber])),
     optional ''fairness_score'' TNumber]"

definition AvailabilityResponse :: tstype where
  "AvailabilityResponse = TObject
    [required ''organizer_slug'' TString,
     required ''event_type_slug'' TString,
     required ''start_date'' TString,
     required ''end_date'' TString,
     required ''invitee_timezone'' TString,
     required ''attendee_count'' TNumber,
     required ''available_slots'' (TArray AvailableSlot),
     required ''cache_hit'' TBoolean,
     required ''total_slots'' TNumber,
     required ''computation_time_ms'' TNumber,
     optional ''multi_invitee_mode'' TBoolean,
     optional ''invitee_timezones'' (TArray TString)]"


section \<open>Form validation: the schema combinators\<close>

text \<open>
  The forms validate with schemas built from the zod library (version 3), which is not
  part of the repository. The combinators below follow its parser: a parse has a status
  (\<open>Aborted\<close> after a value of the wrong type, \<open>Dirty\<close> after a failed check or
  refinement) and a list of issues, each with the path of the field it belongs to; a
  refinement runs unless the schema under it aborted; an object parses every field of
  its shape, reads a missing key as \<^verbatim>\<open>undefined\<close> and drops the keys outside its shape.
  An issue without a message of its own carries its zod code as message.
\<close>

datatype parse_status = Valid | Dirty | Aborted

type_synonym issue = "string list \<times> string"

datatype parsed = Parsed (status: parse_status) (issues: "issue list") (pdata: json)

type_synonym zod_schema = "json \<Rightarrow> parsed"

type_synonym 'a check = "'a \<Rightarrow> string option"

fun run_checks :: "'a check list \<Rightarrow> 'a \<Rightarrow> issue list" where
  "run_checks [] x = []"
| "run_checks (c # cs) x =
     (case c x of None \<Rightarrow> run_checks cs x | Some m \<Rightarrow> ([], m) # run_checks cs x)"

definition checked :: "issue list \<Rightarrow> json \<Rightarrow> parsed" where
  "checked is v = Parsed (if is = [] then Valid else Dirty) is v"

definition invalid_type :: "json \<Rightarrow> parsed" where
  "invalid_type v = Parsed Aborted [([], ''invalid_type'')] v"

definition str_min :: "nat \<Rightarrow> string \<Rightarrow> string check" where
  "str_min n m s = (if length s < n then Some m else None)"

definition str_email :: "(string \<Rightarrow> bool) \<Rightarrow> string \<Rightarrow> string check" where
  "str_email email_regex m s = (if email_regex s then None else Some m)"

definition num_min :: "real \<Rightarrow> jsnumber check" where
  "num_min lo n = (if num_lt n (Finite lo) then Some ''too_small'' else None)"

definition num_max :: "real \<Rightarrow> jsnumber check" where
  "num_max hi n = (if num_lt (Finite hi) n then Some ''too_big'' else None)"

definition z_string :: "string check list \<Rightarrow> zod_schema" where
  "z_string cs v = (case v of JStr s \<Rightarrow> checked (run_checks cs s) v | _ \<Rightarrow> invalid_type v)"

definition z_number :: "jsnumber check list \<Rightarrow> zod_schema" where
  "z_number cs v =
     (case v of
        JNum n \<Rightarrow> if n = NaN then invalid_type v else checked (run_checks cs n) v
      | _ \<Rightarrow> invalid_type v)"

definition z_boolean :: zod_schema where
  "z_boolean v = (case v of JBool b \<Rightarrow> Parsed Valid [] v | _ \<Rightarrow> invalid_type v)"

definition z_optional :: "zod_schema \<Rightarrow> zod_schema" where
  "z_optional sch v = (if v = JUndefined then Parsed Valid [] JUndefined else sch v)"

definition z_refine :: "zod_schema \<Rightarrow> (json \<Rightarrow> bool) \<Rightarrow> string \<Rightarrow> string list \<Rightarrow> zod_schema" where
  "z_refine sch ok m path v =
     (let r = sch v
      in if status r = Aborted then r
         else if ok (pdata r) then r
         else Parsed Dirty (issues r @ [(path, m)]) (pdata r))"

definition merge_status :: "parse_status list \<Rightarrow> parse_status" where
  "merge_status ss =
     (if Aborted \<in> set ss then Aborted else if Dirty \<in> set ss then Dirty else Valid)"

definition at_key :: "string \<Rightarrow> issue \<Rightarrow> issue" where
  "at_key k i = (k # fst i, snd i)"

definition parse_shape :: "(string \<times> zod_schema) list \<Rightarrow> json \<Rightarrow> (string \<times> parsed) list" where
  "parse_shape shape v = map (\<lambda>f. (fst f, snd f (get_field v (fst f)))) shape"

definition parsed_fields :: "(string \<times> zod_schema) list \<Rightarrow> json \<Rightarrow> (string \<times> json) list" where
  "parsed_fields shape v =
     map (\<lambda>r. (fst r, pdata (snd r)))
       (filter (\<lambda>r. pdata (snd r) \<noteq> JUndefined \<or> has_key v (fst r)) (parse_shape shape v))"

definition z_object :: "(string \<times> zod_schema) list \<Rightarrow> zod_schema" where
  "z_object shape v =
     (case v of
        JObj kvs \<Rightarrow>
          Parsed (merge_status (map (\<lambda>r. status (snd r)) (parse_shape shape v)))
            (concat (map (\<lambda>r. map (at_key (fst r)) (issues (snd r))) (parse_shape shape v)))
            (JObj (parsed_fields shape v))
      | _ \<Rightarrow> invalid_type v)"

text \<open>\<^verbatim>\<open>safeParse\<close>: the parsed data when the status is valid, the issues otherwise.\<close>

definition safeParse :: "zod_schema \<Rightarrow> json \<Rightarrow> issue list + json" where
  "safeParse sch v = (let r = sch v in if status r = Valid then Inr (pdata r) else Inl (issues r))"

text \<open>
  The form resolver attaches each issue to the field its path names and keeps the first
  issue of a field.
\<close>

definition field_error :: "issue list \<Rightarrow> string \<Rightarrow> string option" where
  "field_error is field = map_of is [field]"


section \<open>The schemas of the availability page and of the registration page\<close>

definition ruleSchema :: zod_schema where
  "ruleSchema = z_object
    [(''day_of_week'', z_number [num_min 0, num_max 6]),
     (''start_time'', z_string [str_min 1 ''Start time is required'']),
     (''end_time'', z_string [str_min 1 ''End time is required'']),
     (''is_active'', z_boolean)]"

definition bufferSchema :: zod_schema where
  "bufferSchema = z_object
    [(''default_buffer_before'', z_number [num_min 0, num_max 120]),
     (''default_buffer_after'', z_number [num_min 0, num_max 120]),
     (''minimum_gap'', z_number [num_min 0, num_max 60]),
     (''slot_interval_minutes'', z_number [num_min 5, num_max 60])]"

text \<open>
  \<^verbatim>\<open>schema\<close> of the registration page. The regular expression behind \<^verbatim>\<open>.email()\<close>
  belongs to the library and is a parameter here; \<open>register_shape\<close> is the object
  literal handed to \<^verbatim>\<open>z.object\<close>.
\<close>

definition register_shape :: "(string \<Rightarrow> bool) \<Rightarrow> (string \<times> zod_schema) list" where
  "register_shape email_regex =
     [(''first_name'', z_string [str_min 1 ''First name is required'']),
      (''last_name'', z_optional (z_string [])),
      (''username'', z_optional (z_string [])),
      (''email'', z_string [str_email email_regex ''Please enter a valid email address'']),
      (''password'', z_string [str_min 8 ''Password must be at least 8 characters'']),
      (''password_confirm'', z_string []),
      (''terms_accepted'',
         z_refine z_boolean (\<lambda>val. val = JBool True)
           ''You must accept the terms and conditions'' [])]"

definition RegisterPage_schema :: "(string \<Rightarrow> bool) \<Rightarrow> zod_schema" where
  "RegisterPage_schema email_regex =
     z_refine (z_object (register_shape email_regex))
       (\<lambda>data. get_field data ''password'' = get_field data ''password_confirm'')
       ''Passwords don't match'' [''password_confirm'']"

text \<open>The values of the registration form, of the type inferred from the schema.\<close>

record RegisterForm =
  first_name :: string
  last_name :: "string option"
  username :: "string option"
  email :: string
  password :: string
  password_confirm :: string
  terms_accepted :: bool

definition opt_str :: "string option \<Rightarrow> json" where
  "opt_str s = (case s of None \<Rightarrow> JUndefined | Some x \<Rightarrow> JStr x)"

definition form_values :: "RegisterForm \<Rightarrow> json" where
  "form_values d = JObj
    [(''first_name'', JStr (first_name d)),
     (''last_name'', opt_str (last_name d)),
     (''username'', opt_str (username d)),
     (''email'', JStr (email d)),
     (''password'', JStr (password d)),
     (''password_confirm'', JStr (password_confirm d)),
     (''terms_accepted'', JBool (terms_accepted d))]"


section \<open>The HTTP client and the API calls\<close>

text \<open>
  The API module sends every call through one axios instance. Its request interceptor
  adds the token of the auth store; its response interceptor raises a toast on a 401 or
  a 5xx answer and passes the error on. The browser-side state the module touches is a
  record that each call takes and returns; the server is a function from requests to
  answers. The auth store is outside the sources: its \<^verbatim>\<open>logout\<close> is taken to clear the
  token. axios leaves a parameter whose value is \<^verbatim>\<open>undefined\<close> or \<^verbatim>\<open>null\<close> out of the
  query string, and posts an object as its JSON text; a request is recorded as it goes
  on the wire.
\<close>

datatype http_verb = GET | POST | PATCH | DELETE

record request =
  verb :: http_verb
  baseURL :: string
  url :: string
  headers :: "(string \<times> string) list"
  params :: "(string \<times> json) list"
  body :: json

datatype http_error = HttpStatus nat | NoResponse

datatype toast = ToastSuccess string | ToastError string

record client =
  token :: "string option"
  sent :: "request list"
  toasts :: "toast list"
  location_href :: "string option"
  invalidated :: "string list"

type_synonym server = "request \<Rightarrow> http_error + json"

definition request_interceptor :: "client \<Rightarrow> request \<Rightarrow> request" where
  "request_interceptor c r =
     (case token c of
        Some t \<Rightarrow> if t \<noteq> [] then r\<lparr>headers := headers r @ [(''Authorization'', ''Token '' @ t)]\<rparr>
                  else r
      | None \<Rightarrow> r)"

definition response_interceptor :: "http_error \<Rightarrow> client \<Rightarrow> client" where
  "response_interceptor e c =
     (case e of
        HttpStatus n \<Rightarrow>
          if n = 401
          then c\<lparr>token := None,
                 toasts := toasts c @ [ToastError ''Session expired. Please log in again.''],
                 location_href := Some ''/login''\<rparr>
          else if 500 \<le> n
          then c\<lparr>toasts := toasts c @ [ToastError ''Server error. Please try again later.'']\<rparr>
          else c
      | NoResponse \<Rightarrow> c)"

definition api_request :: "server \<Rightarrow> request \<Rightarrow> client \<Rightarrow> (http_error + json) \<times> client" where
  "api_request srv r c =
     (let r' = request_interceptor c r;
          c' = c\<lparr>sent := sent c @ [r']\<rparr>
      in case srv r' of
           Inr d \<Rightarrow> (Inr d, c')
         | Inl e \<Rightarrow> (Inl e, response_interceptor e c'))"

definition axios_params :: "(string \<times> json) list \<Rightarrow> (string \<times> json) list" where
  "axios_params ps = filter (\<lambda>p. snd p \<noteq> JUndefined \<and> snd p \<noteq> JNull) ps"

definition api_get :: "server \<Rightarrow> string \<Rightarrow> (string \<times> json) list \<Rightarrow> client \<Rightarrow> (http_error + json) \<times> client" where
  "api_get srv u ps =
     api_request srv \<lparr>verb = GET, baseURL = ''http://localhost:8000/api/v1'', url = u,
       headers = [], params = axios_params ps, body = JUndefined\<rparr>"

definition api_post :: "server \<Rightarrow> string \<Rightarrow> json \<Rightarrow> client \<Rightarrow> (http_error + json) \<times> client" where
  "api_post srv u d =
     api_request srv \<lparr>verb = POST, baseURL = ''http://localhost:8000/api/v1'', url = u,
       headers = [], params = [], body = json_wire d\<rparr>"

definition api_patch :: "server \<Rightarrow> string \<Rightarrow> json \<Rightarrow> client \<Rightarrow> (http_error + json) \<times> client" where
  "api_patch srv u d =
     api_request srv \<lparr>verb = PATCH, baseURL = ''http://localhost:8000/api/v1'', url = u,
       headers = [], params = [], body = json_wire d\<rparr>"

definition opt_num :: "jsnumber option \<Rightarrow> json" where
  "opt_num n = (case n of None \<Rightarrow> JUndefined | Some x \<Rightarrow> JNum x)"


definition getAvailableSlots ::
  "server \<Rightarrow> string \<Rightarrow> string \<Rightarrow> (string \<times> json) list \<Rightarrow> client \<Rightarrow> (http_error + json) \<times> client" where
  "getAvailableSlots srv organizerSlug eventTypeSlug ps =
     api_get srv (''/events/slots/'' @ organizerSlug @ ''/'' @ eventTypeSlug @ ''/'') ps"

text \<open>The calls of \<^verbatim>\<open>availabilityApi\<close> on buffer settings and on the cache.\<close>

definition getBufferSettings :: "server \<Rightarrow> client \<Rightarrow> (http_error + json) \<times> client" where
  "getBufferSettings srv = api_get srv ''/availability/buffer/'' []"

definition updateBufferSettings :: "server \<Rightarrow> json \<Rightarrow> client \<Rightarrow> (http_error + json) \<times> client" where
  "updateBufferSettings srv d = api_patch srv ''/availability/buffer/'' d"

definition precomputeCache ::
  "server \<Rightarrow> jsnumber option \<Rightarrow> client \<Rightarrow> (http_error + json) \<times> client" where
  "precomputeCache srv daysAhead =
     api_post srv ''/availability/cache/precompute/'' (JObj [(''days_ahead'', opt_num daysAhead)])"

text \<open>
  The mutations of the availability page: the call, then \<^verbatim>\<open>onSuccess\<close> when the call
  resolves. The buffer form submits through \<^verbatim>\<open>handleSubmit\<close>, which hands the parsed data
  to \<^verbatim>\<open>onBufferSubmit\<close> only when the resolver reports no error.
\<close>

definition toast_success :: "string \<Rightarrow> client \<Rightarrow> client" where
  "toast_success m c = c\<lparr>toasts := toasts c @ [ToastSuccess m]\<rparr>"

definition invalidateQueries :: "string \<Rightarrow> client \<Rightarrow> client" where
  "invalidateQueries k c = c\<lparr>invalidated := invalidated c @ [k]\<rparr>"

definition precomputeCacheMutation :: "server \<Rightarrow> client \<Rightarrow> client" where
  "precomputeCacheMutation srv c =
     (case precomputeCache srv (Some (Finite 14)) c of
        (Inr d, c') \<Rightarrow> toast_success ''Cache precomputation started'' c'
      | (Inl e, c') \<Rightarrow> c')"

definition updateBufferMutation :: "server \<Rightarrow> json \<Rightarrow> client \<Rightarrow> client" where
  "updateBufferMutation srv d c =
     (case updateBufferSettings srv d c of
        (Inr r, c') \<Rightarrow> invalidateQueries ''buffer-settings'' (toast_success ''Buffer settings updated'' c')
      | (Inl e, c') \<Rightarrow> c')"

definition onBufferSubmit :: "server \<Rightarrow> json \<Rightarrow> client \<Rightarrow> client" where
  "onBufferSubmit srv d = updateBufferMutation srv d"

definition bufferForm_handleSubmit :: "server \<Rightarrow> json \<Rightarrow> client \<Rightarrow> client" where
  "bufferForm_handleSubmit srv form c =
     (case safeParse bufferSchema form of
        Inr d \<Rightarrow> onBufferSubmit srv d c
      | Inl errors \<Rightarrow> c)"


section \<open>The cache layer of the availability engine\<close>

text \<open>
  Modelled from the spec: the cache layer (\<^verbatim>\<open>get\<close>, \<^verbatim>\<open>precompute\<close>, \<^verbatim>\<open>invalidate\<close>), the
  rule store and the mutation path of the availability engine. They run on the server
  and are not among the sources, which only call their endpoints and declare the
  \<^verbatim>\<open>cache_hit\<close> flag. The definitions follow sections 3, 4.4 and 5 of the
  specification: an entry is keyed by organizer, event type, date window and timezone
  and carries the generation stamp under which it was computed; \<^verbatim>\<open>get\<close> serves an entry
  whose stamp is the organizer's current generation and otherwise recomputes and stores
  (read-through); \<^verbatim>\<open>precompute\<close> stores a fresh entry for each of its targets;
  \<^verbatim>\<open>invalidate\<close> bumps the organizer's generation and purges nothing; a rule mutation
  changes the rule set and invalidates before it is acknowledged; an entry can also
  leave the cache when its time to live runs out. The cold computation (interval
  resolver and slot generator) and the choice of the targets of a precompute job are
  parameters.
\<close>

datatype cache_key =
  CacheKey (organizer_id: string) (event_type_id: string) (date_window: "string \<times> string")
    (key_timezone: string)

record cache_entry =
  entry_slots :: "json list"
  stamp :: nat

record 'r engine =
  rules :: "string \<Rightarrow> 'r"
  generation :: "string \<Rightarrow> nat"
  entries :: "cache_key \<rightharpoonup> cache_entry"

type_synonym 'r cold = "'r \<Rightarrow> cache_key \<Rightarrow> json list"

type_synonym 'r targets = "'r \<Rightarrow> nat \<Rightarrow> (string \<times> (string \<times> string) \<times> string) list"

definition init :: "(string \<Rightarrow> 'r) \<Rightarrow> 'r engine" where
  "init rs = \<lparr>rules = rs, generation = (\<lambda>org. 0), entries = Map.empty\<rparr>"

text \<open>
  Modelled from the spec: an entry's value is the slot sequence of the cold computation,
  stamped with the organizer's generation at the time it is computed (section 3,
  CacheEntry).
\<close>

definition store :: "'r cold \<Rightarrow> cache_key \<Rightarrow> 'r engine \<Rightarrow> 'r engine" where
  "store compute k s =
     s\<lparr>entries := (entries s)(k \<mapsto>
        \<lparr>entry_slots = compute (rules s (organizer_id k)) k,
         stamp = generation s (organizer_id k)\<rparr>)\<rparr>"

text \<open>
  Modelled from the spec: \<^verbatim>\<open>get(key)\<close> "returns cached slots and a cache_hit flag if the
  entry exists and is not stale (generation stamp matches current rule generation for
  that organizer)"; staleness "resolves by recomputation", and the cache is read-through.
\<close>

definition get :: "'r cold \<Rightarrow> cache_key \<Rightarrow> 'r engine \<Rightarrow> (json list \<times> bool) \<times> 'r engine" where
  "get compute k s =
     (case entries s k of
        Some e \<Rightarrow>
          if stamp e = generation s (organizer_id k) then ((entry_slots e, True), s)
          else ((compute (rules s (organizer_id k)) k, False), store compute k s)
      | None \<Rightarrow> ((compute (rules s (organizer_id k)) k, False), store compute k s))"

text \<open>
  Modelled from the spec: \<^verbatim>\<open>precompute(organizer_id, days_ahead)\<close> "eagerly computes and
  stores entries for the next N days across the organizer's active event types and
  common timezones". The state below is the one after the job has run.
\<close>

definition target_key :: "string \<Rightarrow> string \<times> (string \<times> string) \<times> string \<Rightarrow> cache_key" where
  "target_key org t = CacheKey org (fst t) (fst (snd t)) (snd (snd t))"

definition precompute :: "'r cold \<Rightarrow> 'r targets \<Rightarrow> string \<Rightarrow> nat \<Rightarrow> 'r engine \<Rightarrow> 'r engine" where
  "precompute compute targets org days_ahead s =
     fold (\<lambda>t. store compute (target_key org t)) (targets (rules s org) days_ahead) s"

text \<open>
  Modelled from the spec: \<^verbatim>\<open>invalidate(organizer_id)\<close> "bumps the generation stamp, causing
  all existing entries for that organizer to be treated as stale on next read (lazy
  eviction, not immediate purge)"; rule mutations "must invalidate affected cache
  entries before acknowledging the mutation's success".
\<close>

definition invalidate :: "string \<Rightarrow> 'r engine \<Rightarrow> 'r engine" where
  "invalidate org s = s\<lparr>generation := (generation s)(org := Suc (generation s org))\<rparr>"

definition mutate :: "string \<Rightarrow> ('r \<Rightarrow> 'r) \<Rightarrow> 'r engine \<Rightarrow> 'r engine" where
  "mutate org change s = invalidate org (s\<lparr>rules := (rules s)(org := change (rules s org))\<rparr>)"

text \<open>
  Modelled from the spec: cache entries are "recomputed on rule mutation or TTL expiry";
  an expired entry is gone from the cache.
\<close>

definition expire :: "cache_key \<Rightarrow> 'r engine \<Rightarrow> 'r engine" where
  "expire k s = s\<lparr>entries := (entries s)(k := None)\<rparr>"

text \<open>The calls the engine receives, and a run of the engine over a sequence of them.\<close>

datatype 'r call =
    Get cache_key
  | Precompute string nat
  | Invalidate string
  | Mutate string "'r \<Rightarrow> 'r"
  | Expire cache_key

fun step :: "'r cold \<Rightarrow> 'r targets \<Rightarrow> 'r call \<Rightarrow> 'r engine \<Rightarrow> 'r engine" where
  "step compute targets (Get k) s = snd (get compute k s)"
| "step compute targets (Precompute org n) s = precompute compute targets org n s"
| "step compute targets (Invalidate org) s = invalidate org s"
| "step compute targets (Mutate org change) s = mutate org change s"
| "step compute targets (Expire k) s = expire k s"

definition run :: "'r cold \<Rightarrow> 'r targets \<Rightarrow> 'r call list \<Rightarrow> 'r engine \<Rightarrow> 'r engine" where
  "run compute targets calls s = fold (step compute targets) calls s"

text \<open>
  What every reachable state of the engine satisfies: no entry is stamped beyond its
  organizer's generation, and an entry stamped with the current generation holds the
  cold computation for the current rules.
\<close>

definition sound :: "'r cold \<Rightarrow> 'r engine \<Rightarrow> bool" where
  "sound compute s \<longleftrightarrow>
     (\<forall>k e. entries s k = Some e \<longrightarrow>
        stamp e \<le> generation s (organizer_id k) \<and>
        (stamp e = generation s (organizer_id k) \<longrightarrow>
           entry_slots e = compute (rules s (organizer_id k)) k))"


section \<open>Sample values\<close>

definition monday_rule :: json where
  "monday_rule = JObj [(''day_of_week'', JNum (Finite 0)), (''start_time'', JStr ''09:00''),
     (''end_time'', JStr ''17:00''), (''is_active'', JBool True)]"

definition eighth_day_rule :: json where
  "eighth_day_rule = JObj [(''day_of_week'', JNum (Finite 7)), (''start_time'', JStr ''09:00''),
     (''end_time'', JStr ''17:00''), (''is_active'', JBool True)]"

definition contains_at :: "string \<Rightarrow> bool" where
  "contains_at s = (CHR ''@'' \<in> set s)"

definition complete_form :: RegisterForm where
  "complete_form = \<lparr>first_name = ''Ada'', last_name = Some ''Lovelace'', username = None,
     email = ''ada@example.com'', password = ''engine-1843'', password_confirm = ''engine-1843'',
     terms_accepted = True\<rparr>"

definition mismatched_form :: RegisterForm where
  "mismatched_form = \<lparr>first_name = ''Ada'', last_name = None, username = None,
     email = ''ada@example.com'', password = ''engine-1843'', password_confirm = ''engine-1842'',
     terms_accepted = True\<rparr>"

definition sample_response :: json where
  "sample_response = JObj
    [(''organizer_slug'', JStr ''ada''), (''event_type_slug'', JStr ''intro-call''),
     (''start_date'', JStr ''2024-12-02''), (''end_date'', JStr ''2024-12-03''),
     (''invitee_timezone'', JStr ''Europe/Paris''), (''attendee_count'', JNum (Finite 1)),
     (''available_slots'',
        JArr [JObj [(''start_time'', JStr ''2024-12-02T09:00:00Z''),
                    (''end_time'', JStr ''2024-12-02T09:30:00Z''),
                    (''duration_minutes'', JNum (Finite 30))]]),
     (''cache_hit'', JBool False), (''total_slots'', JNum (Finite 1)),
     (''computation_time_ms'', JNum (Finite 12.5))]"

definition sample_server :: server where
  "sample_server r = (if verb r = GET then Inr sample_response else Inr (JObj [(''message'', JStr ''ok'')]))"

definition sample_client :: client where
  "sample_client = \<lparr>token = Some ''t0k3n'', sent = [], toasts = [], location_href = None, invalidated = []\<rparr>"

definition sample_params :: "(string \<times> json) list" where
  "sample_params = [(''start_date'', JStr ''2024-12-02''), (''end_date'', JStr ''2024-12-03''),
     (''timezone'', JStr ''Europe/Paris'')]"


definition malformed_answer :: json where
  "malformed_answer = JObj [(''cache_hit'', JStr ''yes''), (''total_slots'', JNull)]"

definition synced_block :: json where
  "synced_block = JObj
    [(''id'', JStr ''b1''), (''start_datetime'', JStr ''2024-12-02T12:00:00Z''),
     (''end_datetime'', JStr ''2024-12-02T13:00:00Z''), (''reason'', JStr ''Lunch''),
     (''source'', JStr ''google_calendar''), (''source_display'', JStr ''Google Calendar''),
     (''external_id'', JStr ''evt_1''), (''is_active'', JBool True),
     (''created_at'', JStr ''2024-11-01T00:00:00Z''), (''updated_at'', JStr ''2024-11-01T00:00:00Z'')]"

definition sample_buffer_form :: json where
  "sample_buffer_form = JObj
    [(''default_buffer_before'', JNum (Finite 10)), (''default_buffer_after'', JNum (Finite 10)),
     (''minimum_gap'', JNum (Finite 5)), (''slot_interval_minutes'', JNum (Finite 30))]"

definition sample_buffer :: json where
  "sample_buffer = JObj
    [(''default_buffer_before'', JNum (Finite 10)), (''default_buffer_after'', JNum (Finite 10)),
     (''minimum_gap'', JNum (Finite 5)), (''slot_interval_minutes'', JNum (Finite 30)),
     (''created_at'', JStr ''2024-11-01T00:00:00Z''), (''updated_at'', JStr ''2024-11-02T00:00:00Z'')]"

definition sample_cold :: "string cold" where
  "sample_cold r k = [JObj [(''start_time'', JStr (r @ ''@'' @ fst (date_window k))),
     (''end_time'', JStr (r @ ''@'' @ snd (date_window k))),
     (''duration_minutes'', JNum (Finite 30))]]"

definition sample_targets :: "string targets" where
  "sample_targets r n =
     (if n = 0 then [] else [(''intro-call'', (''2024-12-02'', ''2024-12-03''), ''Europe/Paris'')])"

definition sample_rules :: "string \<Rightarrow> string" where
  "sample_rules org = ''weekdays''"

definition sample_key :: cache_key where
  "sample_key = CacheKey ''ada'' ''intro-call'' (''2024-12-02'', ''2024-12-03'') ''Europe/Paris''"


section \<open>Properties of the page title\<close>

lemma routes_exact:
  "(r, t) \<in> set routes \<Longrightarrow> map_of routes r = Some t \<and> t \<noteq> []"
  by (auto simp: routes_def)

lemma pathname_not_inherited:
  "is_pathname p \<Longrightarrow> p \<notin> set object_prototype_members"
  by (auto simp: is_pathname_def object_prototype_members_def)

lemma partial_match_none:
  "\<forall>(r, t) \<in> set rs. r \<noteq> ''/dashboard'' \<longrightarrow> \<not> prefix r p \<Longrightarrow> partial_match rs p = None"
  by (induction rs) auto

text \<open>No route other than \<^verbatim>\<open>/dashboard\<close> is a prefix of another route.\<close>

lemma route_cases:
  "(r, t) \<in> set routes \<Longrightarrow> r \<noteq> ''/dashboard'' \<Longrightarrow>
   (r, t) \<in> set (tl routes)"
  by (simp add: routes_def)

lemma routes_no_nesting:
  "(r, t) \<in> set (tl routes) \<Longrightarrow> (r', t') \<in> set (tl routes) \<Longrightarrow> prefix r r' \<Longrightarrow> r = r' \<and> t = t'"
  unfolding routes_def list.sel set_simps insert_iff empty_iff
  by (elim disjE; simp)

lemma routes_prefix_free:
  assumes "(r, t) \<in> set routes" "(r', t') \<in> set routes" "r \<noteq> ''/dashboard''"
    "r' \<noteq> ''/dashboard''" "prefix r p" "prefix r' p"
  shows "t = t'"
proof -
  have a: "(r, t) \<in> set (tl routes)" using assms(1,3) by (rule route_cases)
  have b: "(r', t') \<in> set (tl routes)" using assms(2,4) by (rule route_cases)
  from assms(5,6) have "prefix r r' \<or> prefix r' r"
    by (rule prefix_same_cases)
  then show ?thesis
    using routes_no_nesting [OF a b] routes_no_nesting [OF b a] by blast
qed

lemma partial_match_some:
  "partial_match rs p = Some t \<Longrightarrow> \<exists>r. (r, t) \<in> set rs \<and> r \<noteq> ''/dashboard'' \<and> prefix r p"
  by (induction rs) (auto split: if_splits)

lemma partial_match_hit:
  "(r, t) \<in> set rs \<Longrightarrow> r \<noteq> ''/dashboard'' \<Longrightarrow> prefix r p \<Longrightarrow> partial_match rs p \<noteq> None"
  by (induction rs) auto

lemma routes_get_unknown:
  assumes "is_pathname p" "p \<notin> fst ` set routes"
  shows "routes_get p = NoValue"
proof -
  have "map_of routes p = None" using assms(2) by (simp add: map_of_eq_None_iff)
  then show ?thesis using pathname_not_inherited [OF assms(1)] by (simp add: routes_get_def)
qed

text \<open>
  Claim C9. For every pathname (a string that begins with a slash, as the router's
  location gives it): a pathname equal to one of the ten dashboard routes gets that
  route's title; any other pathname that has a route other than \<^verbatim>\<open>/dashboard\<close> as a prefix
  gets that route's title; every remaining pathname, \<^verbatim>\<open>/dashboard/<unknown>\<close> included,
  gets the title Dashboard.
\<close>

theorem getPageTitle_three_cases:
  assumes "is_pathname pathname"
  shows "(\<forall>r t. (r, t) \<in> set routes \<and> pathname = r \<longrightarrow> getPageTitle pathname = Title t) \<and>
         (\<forall>r t. pathname \<notin> fst ` set routes \<and> (r, t) \<in> set routes \<and> r \<noteq> ''/dashboard'' \<and>
                prefix r pathname \<longrightarrow> getPageTitle pathname = Title t) \<and>
         (pathname \<notin> fst ` set routes \<and>
          (\<forall>(r, t) \<in> set routes. r \<noteq> ''/dashboard'' \<longrightarrow> \<not> prefix r pathname)
            \<longrightarrow> getPageTitle pathname = Title ''Dashboard'')"
proof (intro conjI allI impI)
  fix r t assume "(r, t) \<in> set routes \<and> pathname = r"
  then show "getPageTitle pathname = Title t"
    using routes_exact [of r t] by (simp add: getPageTitle_def routes_get_def)
next
  fix r t
  assume h: "pathname \<notin> fst ` set routes \<and> (r, t) \<in> set routes \<and> r \<noteq> ''/dashboard'' \<and>
             prefix r pathname"
  then have nv: "routes_get pathname = NoValue"
    using assms routes_get_unknown by blast
  from h obtain t' where pm: "partial_match routes pathname = Some t'"
    using partial_match_hit [of r t routes pathname] by auto
  then obtain r' where "(r', t') \<in> set routes" "r' \<noteq> ''/dashboard''" "prefix r' pathname"
    using partial_match_some by blast
  with h have "t = t'" using routes_prefix_free [of r t r' t' pathname] by blast
  with nv pm show "getPageTitle pathname = Title t"
    by (simp add: getPageTitle_def)
next
  assume h: "pathname \<notin> fst ` set routes \<and>
          (\<forall>(r, t) \<in> set routes. r \<noteq> ''/dashboard'' \<longrightarrow> \<not> prefix r pathname)"
  then have nv: "routes_get pathname = NoValue"
    using assms routes_get_unknown by blast
  from h have "partial_match routes pathname = None"
    using partial_match_none by blast
  with nv show "getPageTitle pathname = Title ''Dashboard''"
    by (simp add: getPageTitle_def)
qed

theorem getPageTitle_three_cases_witness:
  "is_pathname ''/dashboard/settings'' \<and> getPageTitle ''/dashboard/settings'' = Title ''Settings'' \<and>
   is_pathname ''/dashboard/bookings/42'' \<and> getPageTitle ''/dashboard/bookings/42'' = Title ''Bookings'' \<and>
   is_pathname ''/dashboard/reports'' \<and> getPageTitle ''/dashboard/reports'' = Title ''Dashboard''"
proof -
  have p1: "is_pathname ''/dashboard/settings''" by (simp add: is_pathname_def)
  have m1: "(''/dashboard/settings'', ''Settings'') \<in> set routes" by (simp add: routes_def)
  have r1: "getPageTitle ''/dashboard/settings'' = Title ''Settings''"
    using getPageTitle_three_cases [OF p1] m1 by blast
  have p2: "is_pathname ''/dashboard/bookings/42''" by (simp add: is_pathname_def)
  have n2: "''/dashboard/bookings/42'' \<notin> fst ` set routes" by (simp add: routes_def)
  have m2: "(''/dashboard/bookings'', ''Bookings'') \<in> set routes" by (simp add: routes_def)
  have q2: "prefix ''/dashboard/bookings'' ''/dashboard/bookings/42''" by simp
  have r2: "getPageTitle ''/dashboard/bookings/42'' = Title ''Bookings''"
    using getPageTitle_three_cases [OF p2] n2 m2 q2 by blast
  have p3: "is_pathname ''/dashboard/reports''" by (simp add: is_pathname_def)
  have n3: "''/dashboard/reports'' \<notin> fst ` set routes" by (simp add: routes_def)
  have q3: "\<forall>(r, t) \<in> set routes. r \<noteq> ''/dashboard'' \<longrightarrow> \<not> prefix r ''/dashboard/reports''"
    by (simp add: routes_def)
  have r3: "getPageTitle ''/dashboard/reports'' = Title ''Dashboard''"
    using getPageTitle_three_cases [OF p3] n3 q3 by blast
  show ?thesis using p1 r1 p2 r2 p3 r3 by blast
qed

text \<open>
  Outside the pathnames the lookup can reach \<^verbatim>\<open>Object.prototype\<close>: the result is then the
  inherited member and no title.
\<close>

lemma getPageTitle_inherited_member:
  "getPageTitle ''constructor'' = ProtoMember ''constructor''"
  by (simp add: getPageTitle_def routes_get_def routes_def object_prototype_members_def)


section \<open>Properties of the schema combinators\<close>

lemma finite_in_range:
  "n \<noteq> NaN \<and> \<not> num_lt n (Finite lo) \<and> \<not> num_lt (Finite hi) n \<longleftrightarrow>
   (\<exists>x. n = Finite x \<and> lo \<le> x \<and> x \<le> hi)"
  by (cases n) auto

lemma z_number_range_valid:
  "status (z_number [num_min lo, num_max hi] v) = Valid \<longleftrightarrow>
   (\<exists>x. v = JNum (Finite x) \<and> lo \<le> x \<and> x \<le> hi)"
proof (cases v)
  case (JNum n)
  have "status (z_number [num_min lo, num_max hi] (JNum n)) = Valid \<longleftrightarrow>
        n \<noteq> NaN \<and> \<not> num_lt n (Finite lo) \<and> \<not> num_lt (Finite hi) n"
    by (simp add: z_number_def invalid_type_def checked_def num_min_def num_max_def)
  then show ?thesis using JNum finite_in_range [of n lo hi] by simp
qed (simp_all add: z_number_def invalid_type_def)

lemma z_string_min_valid:
  "status (z_string [str_min k m] v) = Valid \<longleftrightarrow> (\<exists>s. v = JStr s \<and> k \<le> length s)"
  by (cases v) (auto simp: z_string_def invalid_type_def checked_def str_min_def)

lemma z_string_plain_valid:
  "status (z_string [] v) = Valid \<longleftrightarrow> (\<exists>s. v = JStr s)"
  by (cases v) (auto simp: z_string_def invalid_type_def checked_def)

lemma z_string_email_valid:
  "status (z_string [str_email rx m] v) = Valid \<longleftrightarrow> (\<exists>s. v = JStr s \<and> rx s)"
  by (cases v) (auto simp: z_string_def invalid_type_def checked_def str_email_def)

lemma z_optional_string_valid:
  "status (z_optional (z_string []) v) = Valid \<longleftrightarrow> v = JUndefined \<or> (\<exists>s. v = JStr s)"
  by (cases v) (auto simp: z_optional_def z_string_def invalid_type_def checked_def)

lemma z_boolean_valid:
  "status (z_boolean v) = Valid \<longleftrightarrow> (\<exists>b. v = JBool b)"
  by (cases v) (auto simp: z_boolean_def invalid_type_def)

lemma z_boolean_on_bool:
  "z_boolean (JBool b) = Parsed Valid [] (JBool b)"
  by (simp add: z_boolean_def)

lemma z_string_on_string:
  "status (z_string cs (JStr s)) \<noteq> Aborted \<and> pdata (z_string cs (JStr s)) = JStr s"
  by (simp add: z_string_def checked_def)

lemma z_refine_valid:
  "status (z_refine sch ok m path v) = Valid \<longleftrightarrow> status (sch v) = Valid \<and> ok (pdata (sch v))"
  by (auto simp: z_refine_def Let_def)

lemma z_refine_aborted:
  "status (z_refine sch ok m path v) = Aborted \<longleftrightarrow> status (sch v) = Aborted"
  by (auto simp: z_refine_def Let_def)

lemma z_refine_issues:
  "status (sch v) \<noteq> Aborted \<Longrightarrow> \<not> ok (pdata (sch v)) \<Longrightarrow>
   issues (z_refine sch ok m path v) = issues (sch v) @ [(path, m)]"
  by (simp add: z_refine_def Let_def)

lemma merge_status_valid:
  "merge_status ss = Valid \<longleftrightarrow> (\<forall>s \<in> set ss. s = Valid)"
proof -
  have "s = Valid" if "s \<in> set ss" "Aborted \<notin> set ss" "Dirty \<notin> set ss" for s
    using that by (metis parse_status.exhaust)
  then show ?thesis by (auto simp: merge_status_def)
qed

lemma merge_status_aborted:
  "merge_status ss = Aborted \<longleftrightarrow> Aborted \<in> set ss"
  by (simp add: merge_status_def)

lemma z_object_valid:
  "status (z_object shape v) = Valid \<longleftrightarrow>
   (\<exists>kvs. v = JObj kvs) \<and> (\<forall>f \<in> set shape. status (snd f (get_field v (fst f))) = Valid)"
  by (cases v) (auto simp: z_object_def parse_shape_def invalid_type_def merge_status_valid)

lemma z_object_aborted:
  "status (z_object shape (JObj kvs)) = Aborted \<longleftrightarrow>
   (\<exists>f \<in> set shape. status (snd f (get_field (JObj kvs) (fst f))) = Aborted)"
proof -
  have "Aborted \<in> set (map (\<lambda>r. status (snd r)) (parse_shape shape (JObj kvs))) \<longleftrightarrow>
        (\<exists>f \<in> set shape. status (snd f (get_field (JObj kvs) (fst f))) = Aborted)"
    by (induction shape) (auto simp: parse_shape_def)
  then show ?thesis
    by (simp add: z_object_def merge_status_aborted)
qed

lemma parsed_fields_keys:
  "k \<notin> fst ` set shape \<Longrightarrow> map_of (parsed_fields shape v) k = None"
  by (induction shape) (auto simp: parsed_fields_def parse_shape_def)

lemma parsed_fields_lookup:
  "distinct (map fst shape) \<Longrightarrow> map_of shape k = Some sch \<Longrightarrow>
   (case map_of (parsed_fields shape v) k of Some x \<Rightarrow> x | None \<Rightarrow> JUndefined) =
   pdata (sch (get_field v k))"
proof (induction shape)
  case Nil
  then show ?case by simp
next
  case (Cons f shape)
  show ?case
  proof (cases "fst f = k")
    case True
    then have "k \<notin> fst ` set shape" using Cons.prems(1) by auto
    then have "map_of (parsed_fields shape v) k = None" by (rule parsed_fields_keys)
    moreover have "snd f = sch" using True Cons.prems(2) by (cases f) simp
    ultimately show ?thesis using True by (simp add: parsed_fields_def parse_shape_def)
  next
    case False
    then have "map_of shape k = Some sch" using Cons.prems(2) by (cases f) simp
    moreover have "distinct (map fst shape)" using Cons.prems(1) by simp
    ultimately have "(case map_of (parsed_fields shape v) k of Some x \<Rightarrow> x | None \<Rightarrow> JUndefined) =
                     pdata (sch (get_field v k))"
      by (rule Cons.IH [rotated])
    then show ?thesis using False by (simp add: parsed_fields_def parse_shape_def)
  qed
qed

lemma z_object_get_field:
  assumes "distinct (map fst shape)" "map_of shape k = Some sch"
  shows "get_field (pdata (z_object shape (JObj kvs))) k = pdata (sch (get_field (JObj kvs) k))"
proof -
  have "get_field (pdata (z_object shape (JObj kvs))) k =
        (case map_of (parsed_fields shape (JObj kvs)) k of Some x \<Rightarrow> x | None \<Rightarrow> JUndefined)"
    by (simp add: z_object_def get_field_def)
  then show ?thesis using parsed_fields_lookup [OF assms] by simp
qed

lemma z_object_issue_paths:
  "(p, m) \<in> set (issues (z_object shape (JObj kvs))) \<Longrightarrow>
   \<exists>f q. f \<in> set shape \<and> p = fst f # q \<and> (q, m) \<in> set (issues (snd f (get_field (JObj kvs) (fst f))))"
  by (auto simp: z_object_def parse_shape_def at_key_def)

lemma safeParse_accepts:
  "(\<exists>d. safeParse sch v = Inr d) \<longleftrightarrow> status (sch v) = Valid"
  by (auto simp: safeParse_def Let_def)

lemma safeParse_rejects:
  "(\<exists>is. safeParse sch v = Inl is) \<longleftrightarrow> status (sch v) \<noteq> Valid"
  by (auto simp: safeParse_def Let_def)


section \<open>The weekly rule form\<close>

lemma ruleSchema_valid:
  "status (ruleSchema v) = Valid \<longleftrightarrow>
     (\<exists>kvs. v = JObj kvs) \<and>
     (\<exists>n. get_field v ''day_of_week'' = JNum (Finite n) \<and> 0 \<le> n \<and> n \<le> 6) \<and>
     (\<exists>s. get_field v ''start_time'' = JStr s \<and> s \<noteq> []) \<and>
     (\<exists>s. get_field v ''end_time'' = JStr s \<and> s \<noteq> []) \<and>
     (\<exists>b. get_field v ''is_active'' = JBool b)"
  by (simp add: ruleSchema_def z_object_valid z_number_range_valid z_string_min_valid
        z_boolean_valid Suc_le_eq)

text \<open>
  Claim C7. Whatever value the weekly rule form submits, the rule schema accepts it only
  when \<^verbatim>\<open>day_of_week\<close> is a number from 0 to 6 and \<^verbatim>\<open>start_time\<close> and \<^verbatim>\<open>end_time\<close> are
  non-empty strings; a submission whose \<^verbatim>\<open>day_of_week\<close> is below 0 or above 6 is rejected.
\<close>

theorem ruleSchema_validation:
  "(\<forall>d. safeParse ruleSchema v = Inr d \<longrightarrow>
      (\<exists>n. get_field v ''day_of_week'' = JNum (Finite n) \<and> 0 \<le> n \<and> n \<le> 6) \<and>
      (\<exists>s. get_field v ''start_time'' = JStr s \<and> s \<noteq> []) \<and>
      (\<exists>s. get_field v ''end_time'' = JStr s \<and> s \<noteq> [])) \<and>
   (\<forall>n. get_field v ''day_of_week'' = JNum n \<and> (num_lt n (Finite 0) \<or> num_lt (Finite 6) n) \<longrightarrow>
      (\<exists>is. safeParse ruleSchema v = Inl is))"
proof (intro conjI allI impI)
  fix n
  assume h: "get_field v ''day_of_week'' = JNum n \<and> (num_lt n (Finite 0) \<or> num_lt (Finite 6) n)"
  have "\<not> (\<exists>x. n = Finite x \<and> 0 \<le> x \<and> x \<le> 6)"
    using h finite_in_range [of n 0 6] by blast
  with h have "status (ruleSchema v) \<noteq> Valid"
    by (auto simp: ruleSchema_valid)
  then show "\<exists>is. safeParse ruleSchema v = Inl is"
    by (simp add: safeParse_rejects)
next
  fix d assume "safeParse ruleSchema v = Inr d"
  then have ok: "status (ruleSchema v) = Valid"
    using safeParse_accepts [of ruleSchema v] by blast
  then show "\<exists>n. get_field v ''day_of_week'' = JNum (Finite n) \<and> 0 \<le> n \<and> n \<le> 6"
    by (simp add: ruleSchema_valid)
  from ok show "\<exists>s. get_field v ''start_time'' = JStr s \<and> s \<noteq> []"
    by (simp add: ruleSchema_valid)
  from ok show "\<exists>s. get_field v ''end_time'' = JStr s \<and> s \<noteq> []"
    by (simp add: ruleSchema_valid)
qed

theorem ruleSchema_validation_witness:
  "safeParse ruleSchema monday_rule = Inr monday_rule \<and>
   get_field monday_rule ''day_of_week'' = JNum (Finite 0) \<and>
   get_field monday_rule ''start_time'' = JStr ''09:00'' \<and>
   get_field eighth_day_rule ''day_of_week'' = JNum (Finite 7) \<and> num_lt (Finite 6) (Finite 7) \<and>
   (\<exists>is. safeParse ruleSchema eighth_day_rule = Inl is)"
proof -
  have a: "safeParse ruleSchema monday_rule = Inr monday_rule"
    by (simp add: monday_rule_def safeParse_def ruleSchema_def z_object_def parse_shape_def
          parsed_fields_def z_number_def z_string_def z_boolean_def checked_def num_min_def
          num_max_def str_min_def merge_status_def get_field_def has_key_def)
  have b: "get_field monday_rule ''day_of_week'' = JNum (Finite 0) \<and>
           get_field monday_rule ''start_time'' = JStr ''09:00''"
    by (simp add: monday_rule_def get_field_def)
  have c: "get_field eighth_day_rule ''day_of_week'' = JNum (Finite 7) \<and>
           (num_lt (Finite 7) (Finite 0) \<or> num_lt (Finite 6) (Finite 7))"
    by (simp add: eighth_day_rule_def get_field_def)
  have d: "\<exists>is. safeParse ruleSchema eighth_day_rule = Inl is"
    using ruleSchema_validation [of eighth_day_rule] c by blast
  have e: "\<exists>n. get_field monday_rule ''day_of_week'' = JNum (Finite n) \<and> 0 \<le> n \<and> n \<le> 6"
    using ruleSchema_validation [of monday_rule] a by blast
  show ?thesis using a b c d by simp
qed


section \<open>The registration form\<close>

lemma form_values_fields:
  "get_field (form_values d) ''first_name'' = JStr (first_name d)"
  "get_field (form_values d) ''last_name'' = opt_str (last_name d)"
  "get_field (form_values d) ''username'' = opt_str (username d)"
  "get_field (form_values d) ''email'' = JStr (email d)"
  "get_field (form_values d) ''password'' = JStr (password d)"
  "get_field (form_values d) ''password_confirm'' = JStr (password_confirm d)"
  "get_field (form_values d) ''terms_accepted'' = JBool (terms_accepted d)"
  by (simp_all add: form_values_def get_field_def)

lemma opt_str_cases: "opt_str s = JUndefined \<or> (\<exists>x. opt_str s = JStr x)"
  by (cases s) (simp_all add: opt_str_def)

lemma register_shape_valid:
  "status (z_object (register_shape rx) (form_values d)) = Valid \<longleftrightarrow>
   first_name d \<noteq> [] \<and> rx (email d) \<and> 8 \<le> length (password d) \<and> terms_accepted d"
proof -
  have "\<exists>kvs. form_values d = JObj kvs" by (simp add: form_values_def)
  then show ?thesis
    using opt_str_cases [of "last_name d"] opt_str_cases [of "username d"]
    by (simp add: z_object_valid register_shape_def form_values_fields z_string_min_valid
          z_string_email_valid z_optional_string_valid z_string_plain_valid z_refine_valid
          z_boolean_on_bool Suc_le_eq)
qed

lemma register_shape_not_aborted:
  "status (z_object (register_shape rx) (form_values d)) \<noteq> Aborted"
proof -
  obtain kvs where kvs: "form_values d = JObj kvs" by (simp add: form_values_def)
  have opt: "status (z_optional (z_string []) (opt_str s)) \<noteq> Aborted" for s
    by (cases s) (simp_all add: opt_str_def z_optional_def z_string_on_string)
  have "\<forall>f \<in> set (register_shape rx). status (snd f (get_field (form_values d) (fst f))) \<noteq> Aborted"
    by (simp add: register_shape_def form_values_fields z_string_on_string opt z_refine_aborted
          z_boolean_on_bool)
  then show ?thesis using z_object_aborted [of "register_shape rx" kvs] kvs by simp
qed

lemma register_shape_passwords:
  "get_field (pdata (z_object (register_shape rx) (form_values d))) ''password'' = JStr (password d)"
  "get_field (pdata (z_object (register_shape rx) (form_values d))) ''password_confirm'' =
     JStr (password_confirm d)"
proof -
  obtain kvs where kvs: "form_values d = JObj kvs" by (simp add: form_values_def)
  have dk: "distinct (map fst (register_shape rx))" by (simp add: register_shape_def)
  have p: "map_of (register_shape rx) ''password'' =
             Some (z_string [str_min 8 ''Password must be at least 8 characters''])"
    by (simp add: register_shape_def)
  have c: "map_of (register_shape rx) ''password_confirm'' = Some (z_string [])"
    by (simp add: register_shape_def)
  show "get_field (pdata (z_object (register_shape rx) (form_values d))) ''password'' = JStr (password d)"
    using z_object_get_field [OF dk p, of kvs] kvs form_values_fields(5) [of d]
    by (simp add: z_string_on_string)
  show "get_field (pdata (z_object (register_shape rx) (form_values d))) ''password_confirm'' =
     JStr (password_confirm d)"
    using z_object_get_field [OF dk c, of kvs] kvs form_values_fields(6) [of d]
    by (simp add: z_string_on_string)
qed

lemma register_shape_no_confirm_issue:
  "map_of (issues (z_object (register_shape rx) (form_values d))) [''password_confirm''] = None"
proof -
  obtain kvs where kvs: "form_values d = JObj kvs" by (simp add: form_values_def)
  have "([''password_confirm''], m) \<notin> set (issues (z_object (register_shape rx) (form_values d)))" for m
  proof
    assume "([''password_confirm''], m) \<in> set (issues (z_object (register_shape rx) (form_values d)))"
    then obtain f q where f: "f \<in> set (register_shape rx)" "[''password_confirm''] = fst f # q"
        "(q, m) \<in> set (issues (snd f (get_field (form_values d) (fst f))))"
      using z_object_issue_paths [of "[''password_confirm'']" m "register_shape rx" kvs] kvs by auto
    then have "f = (''password_confirm'', z_string [])"
      by (auto simp: register_shape_def)
    with f(3) show False
      by (simp add: form_values_fields z_string_def checked_def)
  qed
  then show ?thesis
    by (meson map_of_SomeD not_Some_eq)
qed

text \<open>
  Claim C10. The registration schema accepts the values of the form exactly when the
  first name is non-empty, the email passes the library's email check, the password has
  at least 8 characters, the password equals its confirmation and the terms are
  accepted; when the two passwords differ, the form shows the error
  \<^verbatim>\<open>Passwords don't match\<close> at the field \<^verbatim>\<open>password_confirm\<close>.
\<close>

theorem RegisterPage_schema_validation:
  "((\<exists>data. safeParse (RegisterPage_schema email_regex) (form_values d) = Inr data) \<longleftrightarrow>
      first_name d \<noteq> [] \<and> email_regex (email d) \<and> 8 \<le> length (password d) \<and>
      password d = password_confirm d \<and> terms_accepted d) \<and>
   (password d \<noteq> password_confirm d \<longrightarrow>
      (\<exists>is. safeParse (RegisterPage_schema email_regex) (form_values d) = Inl is \<and>
            field_error is ''password_confirm'' = Some ''Passwords don't match''))"
proof
  show "(\<exists>data. safeParse (RegisterPage_schema email_regex) (form_values d) = Inr data) \<longleftrightarrow>
      first_name d \<noteq> [] \<and> email_regex (email d) \<and> 8 \<le> length (password d) \<and>
      password d = password_confirm d \<and> terms_accepted d"
    by (auto simp: safeParse_accepts RegisterPage_schema_def z_refine_valid register_shape_valid
          register_shape_passwords)
next
  show "password d \<noteq> password_confirm d \<longrightarrow>
      (\<exists>is. safeParse (RegisterPage_schema email_regex) (form_values d) = Inl is \<and>
            field_error is ''password_confirm'' = Some ''Passwords don't match'')"
  proof
    assume ne: "password d \<noteq> password_confirm d"
    let ?inner = "z_object (register_shape email_regex) (form_values d)"
    let ?r = "RegisterPage_schema email_regex (form_values d)"
    have bad: "\<not> (get_field (pdata ?inner) ''password'' = get_field (pdata ?inner) ''password_confirm'')"
      using ne by (simp add: register_shape_passwords)
    have iss: "issues ?r = issues ?inner @ [([''password_confirm''], ''Passwords don't match'')]"
      unfolding RegisterPage_schema_def
      using register_shape_not_aborted bad by (rule z_refine_issues)
    have st: "status ?r \<noteq> Valid"
      using bad by (simp add: RegisterPage_schema_def z_refine_valid)
    have "safeParse (RegisterPage_schema email_regex) (form_values d) = Inl (issues ?r)"
      using st by (simp add: safeParse_def Let_def)
    moreover have "field_error (issues ?r) ''password_confirm'' = Some ''Passwords don't match''"
      unfolding iss field_error_def
      by (simp add: map_of_append register_shape_no_confirm_issue map_add_def)
    ultimately show "\<exists>is. safeParse (RegisterPage_schema email_regex) (form_values d) = Inl is \<and>
            field_error is ''password_confirm'' = Some ''Passwords don't match''"
      by blast
  qed
qed

theorem RegisterPage_schema_validation_witness:
  "password mismatched_form \<noteq> password_confirm mismatched_form \<and>
   (\<exists>is. safeParse (RegisterPage_schema contains_at) (form_values mismatched_form) = Inl is \<and>
         field_error is ''password_confirm'' = Some ''Passwords don't match'') \<and>
   (\<exists>data. safeParse (RegisterPage_schema contains_at) (form_values complete_form) = Inr data)"
proof -
  have ne: "password mismatched_form \<noteq> password_confirm mismatched_form"
    by (simp add: mismatched_form_def)
  have ok: "first_name complete_form \<noteq> [] \<and> contains_at (email complete_form) \<and>
            8 \<le> length (password complete_form) \<and>
            password complete_form = password_confirm complete_form \<and> terms_accepted complete_form"
    by (simp add: complete_form_def contains_at_def)
  show ?thesis
    using RegisterPage_schema_validation [of contains_at mismatched_form]
      RegisterPage_schema_validation [of contains_at complete_form] ne ok
    by blast
qed


section \<open>The declared shapes of the API values\<close>

lemma conforms_required:
  "conforms (TObject fs) v \<Longrightarrow> (k, False, t) \<in> set fs \<Longrightarrow>
   get_field v k \<noteq> JUndefined \<and> conforms t (get_field v k)"
proof (cases v)
  case (JObj kvs)
  assume "conforms (TObject fs) v" "(k, False, t) \<in> set fs"
  then have "if get_field v (fst (k, False, t)) = JUndefined then fst (snd (k, False, t))
             else conforms (snd (snd (k, False, t))) (get_field v (fst (k, False, t)))"
    unfolding JObj conforms.simps json.case list_all_iff by (rule bspec)
  then show ?thesis by (simp split: if_splits)
qed simp_all

lemma conforms_optional:
  "conforms (TObject fs) v \<Longrightarrow> (k, True, t) \<in> set fs \<Longrightarrow>
   get_field v k = JUndefined \<or> conforms t (get_field v k)"
proof (cases v)
  case (JObj kvs)
  assume "conforms (TObject fs) v" "(k, True, t) \<in> set fs"
  then have "if get_field v (fst (k, True, t)) = JUndefined then fst (snd (k, True, t))
             else conforms (snd (snd (k, True, t))) (get_field v (fst (k, True, t)))"
    unfolding JObj conforms.simps json.case list_all_iff by (rule bspec)
  then show ?thesis by (simp split: if_splits)
qed simp_all

lemma conforms_string: "conforms TString v \<longleftrightarrow> (\<exists>s. v = JStr s)"
  by (cases v) auto

lemma conforms_number: "conforms TNumber v \<longleftrightarrow> (\<exists>n. v = JNum n)"
  by (cases v) auto

lemma conforms_boolean: "conforms TBoolean v \<longleftrightarrow> (\<exists>b. v = JBool b)"
  by (cases v) auto

lemma conforms_array: "conforms (TArray t) v \<longleftrightarrow> (\<exists>xs. v = JArr xs \<and> list_all (conforms t) xs)"
  by (cases v) auto

lemma AvailabilityResponse_shape:
  assumes "conforms AvailabilityResponse r"
  shows "(\<exists>slots. get_field r ''available_slots'' = JArr slots \<and>
                  list_all (conforms AvailableSlot) slots) \<and>
         (\<exists>b. get_field r ''cache_hit'' = JBool b) \<and>
         (\<exists>n. get_field r ''total_slots'' = JNum n) \<and>
         (\<exists>n. get_field r ''computation_time_ms'' = JNum n) \<and>
         (get_field r ''multi_invitee_mode'' = JUndefined \<or>
            (\<exists>b. get_field r ''multi_invitee_mode'' = JBool b)) \<and>
         (get_field r ''invitee_timezones'' = JUndefined \<or>
            (\<exists>tzs. get_field r ''invitee_timezones'' = JArr tzs \<and> list_all (conforms TString) tzs))"
proof -
  note c = assms [unfolded AvailabilityResponse_def]
  have a: "conforms (TArray AvailableSlot) (get_field r ''available_slots'')"
    using conforms_required [OF c, of "''available_slots''" "TArray AvailableSlot"] by simp
  have b: "conforms TBoolean (get_field r ''cache_hit'')"
    using conforms_required [OF c, of "''cache_hit''" TBoolean] by simp
  have t: "conforms TNumber (get_field r ''total_slots'')"
    using conforms_required [OF c, of "''total_slots''" TNumber] by simp
  have m: "conforms TNumber (get_field r ''computation_time_ms'')"
    using conforms_required [OF c, of "''computation_time_ms''" TNumber] by simp
  have o1: "get_field r ''multi_invitee_mode'' = JUndefined \<or>
            conforms TBoolean (get_field r ''multi_invitee_mode'')"
    using conforms_optional [OF c, of "''multi_invitee_mode''" TBoolean] by simp
  have o2: "get_field r ''invitee_timezones'' = JUndefined \<or>
            conforms (TArray TString) (get_field r ''invitee_timezones'')"
    using conforms_optional [OF c, of "''invitee_timezones''" "TArray TString"] by simp
  show ?thesis
    using a b t m o1 o2
    unfolding conforms_array conforms_boolean conforms_number by blast
qed

lemma sample_response_conforms:
  "conforms AvailabilityResponse sample_response \<and>
   \<not> has_key sample_response ''multi_invitee_mode'' \<and>
   \<not> has_key sample_response ''invitee_timezones''"
  by (simp add: AvailabilityResponse_def AvailableSlot_def sample_response_def get_field_def
        has_key_def)

text \<open>
  Claim C8, as amended. The \<^verbatim>\<open>source\<close> of every value of shape \<^verbatim>\<open>BlockedTime\<close> is one of
  the five strings \<^verbatim>\<open>manual\<close>, \<^verbatim>\<open>google_calendar\<close>, \<^verbatim>\<open>outlook_calendar\<close>,
  \<^verbatim>\<open>apple_calendar\<close> and \<^verbatim>\<open>external_sync\<close>.
\<close>

theorem BlockedTime_source:
  assumes "conforms BlockedTime v"
  shows "get_field v ''source'' \<in> set (map JStr [''manual'', ''google_calendar'',
           ''outlook_calendar'', ''apple_calendar'', ''external_sync''])"
proof -
  have "conforms (TUnion [TLit ''manual'', TLit ''google_calendar'', TLit ''outlook_calendar'',
                TLit ''apple_calendar'', TLit ''external_sync'']) (get_field v ''source'')"
    using conforms_required [OF assms [unfolded BlockedTime_def], of "''source''"] by simp
  then show ?thesis by auto
qed

theorem BlockedTime_source_witness:
  "conforms BlockedTime synced_block \<and>
   get_field synced_block ''source'' \<in> set (map JStr [''manual'', ''google_calendar'',
           ''outlook_calendar'', ''apple_calendar'', ''external_sync''])"
proof -
  have c: "conforms BlockedTime synced_block"
    by (simp add: BlockedTime_def synced_block_def get_field_def)
  show ?thesis using BlockedTime_source [OF c] c by simp
qed

text \<open>
  The claim as stated fails: a blocked time synchronised from Google Calendar has the
  declared shape, and its source is neither \<^verbatim>\<open>manual\<close> nor an external-sync value.
\<close>

theorem BlockedTime_source_not_two_valued:
  "conforms BlockedTime synced_block \<and>
   get_field synced_block ''source'' \<noteq> JStr ''manual'' \<and>
   get_field synced_block ''source'' \<noteq> JStr ''external-sync'' \<and>
   get_field synced_block ''source'' \<noteq> JStr ''external_sync''"
  by (simp add: BlockedTime_def synced_block_def get_field_def)


section \<open>The requests the client issues\<close>

lemma api_request_sent:
  "sent (snd (api_request srv r c)) = sent c @ [request_interceptor c r]"
  by (simp add: api_request_def Let_def response_interceptor_def
        split: sum.split http_error.split)

lemma request_interceptor_keeps:
  "verb (request_interceptor c r) = verb r \<and> url (request_interceptor c r) = url r \<and>
   params (request_interceptor c r) = params r \<and> body (request_interceptor c r) = body r \<and>
   baseURL (request_interceptor c r) = baseURL r"
  by (simp add: request_interceptor_def split: option.split)

lemma api_request_result:
  "fst (api_request srv r c) = srv (request_interceptor c r)"
  by (simp add: api_request_def Let_def split: sum.split)

lemma api_request_resolved:
  "srv (request_interceptor c r) = Inr d \<Longrightarrow>
   api_request srv r c = (Inr d, c\<lparr>sent := sent c @ [request_interceptor c r]\<rparr>)"
  by (simp add: api_request_def Let_def)


lemma getAvailableSlots_result:
  "fst (getAvailableSlots srv organizerSlug eventTypeSlug ps c) =
   srv (last (sent (snd (getAvailableSlots srv organizerSlug eventTypeSlug ps c))))"
  by (simp add: getAvailableSlots_def api_get_def api_request_sent api_request_result)








text \<open>
  Claim C6, as amended. \<^verbatim>\<open>availabilityApi.precomputeCache\<close> issues one POST to
  \<^verbatim>\<open>/availability/cache/precompute/\<close>. For every finite number \<^verbatim>\<open>daysAhead\<close> the posted body
  has \<^verbatim>\<open>days_ahead\<close> equal to the argument; without an argument the body has no
  \<^verbatim>\<open>days_ahead\<close> member; NaN and the infinities are posted as \<^verbatim>\<open>null\<close>. The dashboard's
  mutation calls it with 14, and as soon as the call resolves, whatever the answer holds,
  it reports that the precomputation started.
\<close>

theorem precomputeCache_request:
  "sent (snd (precomputeCache srv daysAhead c)) =
     sent c @ [last (sent (snd (precomputeCache srv daysAhead c)))] \<and>
   verb (last (sent (snd (precomputeCache srv daysAhead c)))) = POST \<and>
   url (last (sent (snd (precomputeCache srv daysAhead c)))) = ''/availability/cache/precompute/'' \<and>
   (\<forall>x. daysAhead = Some (Finite x) \<longrightarrow>
      get_field (body (last (sent (snd (precomputeCache srv daysAhead c))))) ''days_ahead'' =
        JNum (Finite x)) \<and>
   (daysAhead = None \<longrightarrow>
      \<not> has_key (body (last (sent (snd (precomputeCache srv daysAhead c))))) ''days_ahead'') \<and>
   (daysAhead = Some NaN \<or> daysAhead = Some PosInf \<or> daysAhead = Some NegInf \<longrightarrow>
      get_field (body (last (sent (snd (precomputeCache srv daysAhead c))))) ''days_ahead'' =
        JNull) \<and>
   (\<forall>d. fst (precomputeCache srv (Some (Finite 14)) c) = Inr d \<longrightarrow>
      sent (precomputeCacheMutation srv c) = sent (snd (precomputeCache srv (Some (Finite 14)) c)) \<and>
      get_field (body (last (sent (precomputeCacheMutation srv c)))) ''days_ahead'' =
        JNum (Finite 14) \<and>
      toasts (precomputeCacheMutation srv c) =
        toasts c @ [ToastSuccess ''Cache precomputation started''])"
proof (intro conjI allI impI)
  fix d assume "fst (precomputeCache srv (Some (Finite 14)) c) = Inr d"
  then have r: "srv (request_interceptor c \<lparr>verb = POST, baseURL = ''http://localhost:8000/api/v1'',
       url = ''/availability/cache/precompute/'', headers = [], params = [],
       body = JObj [(''days_ahead'', JNum (Finite 14))]\<rparr>) = Inr d"
    by (simp add: precomputeCache_def api_post_def api_request_result opt_num_def)
  have res: "api_request srv \<lparr>verb = POST, baseURL = ''http://localhost:8000/api/v1'',
       url = ''/availability/cache/precompute/'', headers = [], params = [],
       body = JObj [(''days_ahead'', JNum (Finite 14))]\<rparr> c =
     (Inr d, c\<lparr>sent := sent c @ [request_interceptor c \<lparr>verb = POST,
       baseURL = ''http://localhost:8000/api/v1'',
       url = ''/availability/cache/precompute/'', headers = [], params = [],
       body = JObj [(''days_ahead'', JNum (Finite 14))]\<rparr>]\<rparr>)"
    using r by (rule api_request_resolved)
  have m: "precomputeCacheMutation srv c =
        toast_success ''Cache precomputation started''
          (snd (precomputeCache srv (Some (Finite 14)) c))"
    by (simp add: precomputeCacheMutation_def precomputeCache_def api_post_def opt_num_def res)
  show "sent (precomputeCacheMutation srv c) = sent (snd (precomputeCache srv (Some (Finite 14)) c))"
    by (simp add: m toast_success_def)
  show "get_field (body (last (sent (precomputeCacheMutation srv c)))) ''days_ahead'' =
        JNum (Finite 14)"
    by (simp add: m toast_success_def precomputeCache_def api_post_def api_request_sent
          request_interceptor_keeps get_field_def opt_num_def)
  show "toasts (precomputeCacheMutation srv c) =
        toasts c @ [ToastSuccess ''Cache precomputation started'']"
    by (simp add: m toast_success_def precomputeCache_def api_post_def opt_num_def res)
next
  fix x assume "daysAhead = Some (Finite x)"
  then show "get_field (body (last (sent (snd (precomputeCache srv daysAhead c))))) ''days_ahead'' =
        JNum (Finite x)"
    by (simp add: precomputeCache_def api_post_def api_request_sent request_interceptor_keeps
          get_field_def opt_num_def)
next
  assume "daysAhead = None"
  then show "\<not> has_key (body (last (sent (snd (precomputeCache srv daysAhead c))))) ''days_ahead''"
    by (simp add: precomputeCache_def api_post_def api_request_sent request_interceptor_keeps
          has_key_def opt_num_def)
next
  assume "daysAhead = Some NaN \<or> daysAhead = Some PosInf \<or> daysAhead = Some NegInf"
  then show "get_field (body (last (sent (snd (precomputeCache srv daysAhead c))))) ''days_ahead'' =
        JNull"
    by (auto simp: precomputeCache_def api_post_def api_request_sent request_interceptor_keeps
          get_field_def opt_num_def)
qed (simp_all add: precomputeCache_def api_post_def api_request_sent request_interceptor_keeps)

theorem precomputeCache_request_witness:
  "fst (precomputeCache sample_server (Some (Finite 14)) sample_client) =
     Inr (JObj [(''message'', JStr ''ok'')]) \<and>
   toasts (precomputeCacheMutation sample_server sample_client) =
     [ToastSuccess ''Cache precomputation started''] \<and>
   get_field (body (last (sent (precomputeCacheMutation sample_server sample_client))))
     ''days_ahead'' = JNum (Finite 14) \<and>
   get_field (body (last (sent (snd (precomputeCache sample_server (Some (Finite 7))
     sample_client))))) ''days_ahead'' = JNum (Finite 7) \<and>
   \<not> has_key (body (last (sent (snd (precomputeCache sample_server None sample_client)))))
     ''days_ahead'' \<and>
   get_field (body (last (sent (snd (precomputeCache sample_server (Some NaN) sample_client)))))
     ''days_ahead'' = JNull"
proof -
  have ok: "fst (precomputeCache sample_server (Some (Finite 14)) sample_client) =
     Inr (JObj [(''message'', JStr ''ok'')])"
    by (simp add: precomputeCache_def api_post_def api_request_result request_interceptor_keeps
          sample_server_def)
  have t: "toasts sample_client = []"
    by (simp add: sample_client_def)
  have "get_field (body (last (sent (precomputeCacheMutation sample_server sample_client))))
          ''days_ahead'' = JNum (Finite 14) \<and>
        toasts (precomputeCacheMutation sample_server sample_client) =
          toasts sample_client @ [ToastSuccess ''Cache precomputation started'']"
    using precomputeCache_request [of sample_server "Some (Finite 14)" sample_client] ok
    by blast
  moreover have "get_field (body (last (sent (snd (precomputeCache sample_server (Some (Finite 7))
     sample_client))))) ''days_ahead'' = JNum (Finite 7)"
    using precomputeCache_request [of sample_server "Some (Finite 7)" sample_client] by blast
  moreover have "\<not> has_key (body (last (sent (snd (precomputeCache sample_server None
     sample_client))))) ''days_ahead''"
    using precomputeCache_request [of sample_server None sample_client] by blast
  moreover have "get_field (body (last (sent (snd (precomputeCache sample_server (Some NaN)
     sample_client))))) ''days_ahead'' = JNull"
    using precomputeCache_request [of sample_server "Some NaN" sample_client] by blast
  ultimately show ?thesis using ok t by simp
qed

text \<open>
  The claim as stated fails: called with \<^verbatim>\<open>Infinity\<close>, the call posts \<^verbatim>\<open>null\<close> for
  \<^verbatim>\<open>days_ahead\<close> and not the argument; called with NaN likewise; called without an
  argument, it posts a body that has no \<^verbatim>\<open>days_ahead\<close> at all.
\<close>

theorem precomputeCache_days_ahead_not_forwarded:
  "get_field (body (last (sent (snd (precomputeCache sample_server (Some PosInf) sample_client)))))
     ''days_ahead'' = JNull \<and>
   get_field (body (last (sent (snd (precomputeCache sample_server (Some NaN) sample_client)))))
     ''days_ahead'' \<noteq> JNum NaN \<and>
   opt_num (Some PosInf) = JNum PosInf \<and>
   JNull \<noteq> JNum PosInf \<and>
   body (last (sent (snd (precomputeCache sample_server None sample_client)))) = JObj []"
  by (simp add: precomputeCache_def api_post_def api_request_sent request_interceptor_keeps
        get_field_def opt_num_def)

text \<open>
  Claim C3, as amended. \<^verbatim>\<open>publicApi.getAvailableSlots\<close> returns the body of the server's
  answer as it is, under the declared type \<^verbatim>\<open>AvailabilityResponse\<close> and without a check at
  run time. Whenever a successful result has the declared shape, it has an array
  \<^verbatim>\<open>available_slots\<close> of values of shape \<^verbatim>\<open>AvailableSlot\<close>, a boolean \<^verbatim>\<open>cache_hit\<close>, a number
  \<^verbatim>\<open>total_slots\<close> and a number \<^verbatim>\<open>computation_time_ms\<close>; \<^verbatim>\<open>multi_invitee_mode\<close> and
  \<^verbatim>\<open>invitee_timezones\<close> are absent or of their declared type, and a response of the
  declared shape can lack both.
\<close>

theorem getAvailableSlots_response:
  "fst (getAvailableSlots srv organizerSlug eventTypeSlug ps c) =
     srv (last (sent (snd (getAvailableSlots srv organizerSlug eventTypeSlug ps c)))) \<and>
   (\<forall>r. fst (getAvailableSlots srv organizerSlug eventTypeSlug ps c) = Inr r \<and>
        conforms AvailabilityResponse r \<longrightarrow>
      (\<exists>slots. get_field r ''available_slots'' = JArr slots \<and>
               list_all (conforms AvailableSlot) slots) \<and>
      (\<exists>b. get_field r ''cache_hit'' = JBool b) \<and>
      (\<exists>n. get_field r ''total_slots'' = JNum n) \<and>
      (\<exists>n. get_field r ''computation_time_ms'' = JNum n) \<and>
      (get_field r ''multi_invitee_mode'' = JUndefined \<or>
         (\<exists>b. get_field r ''multi_invitee_mode'' = JBool b)) \<and>
      (get_field r ''invitee_timezones'' = JUndefined \<or>
         (\<exists>tzs. get_field r ''invitee_timezones'' = JArr tzs \<and>
                list_all (conforms TString) tzs))) \<and>
   (\<exists>r0. conforms AvailabilityResponse r0 \<and> \<not> has_key r0 ''multi_invitee_mode'' \<and>
         \<not> has_key r0 ''invitee_timezones'')"
proof (intro conjI allI impI)
  show "fst (getAvailableSlots srv organizerSlug eventTypeSlug ps c) =
     srv (last (sent (snd (getAvailableSlots srv organizerSlug eventTypeSlug ps c))))"
    by (rule getAvailableSlots_result)
  show "\<exists>r0. conforms AvailabilityResponse r0 \<and> \<not> has_key r0 ''multi_invitee_mode'' \<and>
         \<not> has_key r0 ''invitee_timezones''"
    using sample_response_conforms by blast
next
  fix r
  assume "fst (getAvailableSlots srv organizerSlug eventTypeSlug ps c) = Inr r \<and>
          conforms AvailabilityResponse r"
  then have s: "conforms AvailabilityResponse r" by simp
  note shape = AvailabilityResponse_shape [OF s]
  show "\<exists>slots. get_field r ''available_slots'' = JArr slots \<and>
               list_all (conforms AvailableSlot) slots"
    using shape by blast
  show "\<exists>b. get_field r ''cache_hit'' = JBool b" using shape by blast
  show "\<exists>n. get_field r ''total_slots'' = JNum n" using shape by blast
  show "\<exists>n. get_field r ''computation_time_ms'' = JNum n" using shape by blast
  show "get_field r ''multi_invitee_mode'' = JUndefined \<or>
         (\<exists>b. get_field r ''multi_invitee_mode'' = JBool b)"
    using shape by blast
  show "get_field r ''invitee_timezones'' = JUndefined \<or>
         (\<exists>tzs. get_field r ''invitee_timezones'' = JArr tzs \<and>
                list_all (conforms TString) tzs)"
    using shape by blast
qed

theorem getAvailableSlots_response_witness:
  "fst (getAvailableSlots (\<lambda>q. Inr sample_response) ''ada'' ''intro-call'' sample_params sample_client)
     = Inr sample_response \<and>
   conforms AvailabilityResponse sample_response \<and>
   \<not> has_key sample_response ''multi_invitee_mode'' \<and>
   (\<exists>slots. get_field sample_response ''available_slots'' = JArr slots \<and>
            list_all (conforms AvailableSlot) slots) \<and>
   (\<exists>b. get_field sample_response ''cache_hit'' = JBool b)"
proof -
  have ok: "fst (getAvailableSlots (\<lambda>q. Inr sample_response) ''ada'' ''intro-call'' sample_params
              sample_client) = Inr sample_response"
    by (simp add: getAvailableSlots_result)
  have "(\<exists>slots. get_field sample_response ''available_slots'' = JArr slots \<and>
            list_all (conforms AvailableSlot) slots) \<and>
        (\<exists>b. get_field sample_response ''cache_hit'' = JBool b)"
    using getAvailableSlots_response [of "\<lambda>q. Inr sample_response" "''ada''" "''intro-call''"
        sample_params sample_client] ok sample_response_conforms
    by blast
  then show ?thesis using ok sample_response_conforms by blast
qed

text \<open>
  The claim as stated fails: when the server answers the slots request with a body that
  is not of the declared shape, the call still succeeds, and its result has no array
  \<^verbatim>\<open>available_slots\<close>, no boolean \<^verbatim>\<open>cache_hit\<close> and no number \<^verbatim>\<open>total_slots\<close>.
\<close>

theorem getAvailableSlots_returns_malformed_answer:
  "fst (getAvailableSlots (\<lambda>q. Inr malformed_answer) ''ada'' ''intro-call'' sample_params
     sample_client) = Inr malformed_answer \<and>
   \<not> conforms AvailabilityResponse malformed_answer \<and>
   get_field malformed_answer ''available_slots'' = JUndefined \<and>
   get_field malformed_answer ''cache_hit'' = JStr ''yes'' \<and>
   get_field malformed_answer ''total_slots'' = JNull"
  by (simp add: getAvailableSlots_result malformed_answer_def AvailabilityResponse_def
        get_field_def)


section \<open>The buffer settings\<close>

lemma parsed_fields_all_kept:
  "\<forall>f \<in> set shape. pdata (snd f (get_field v (fst f))) \<noteq> JUndefined \<Longrightarrow>
   map fst (parsed_fields shape v) = map fst shape"
  by (induction shape) (auto simp: parsed_fields_def parse_shape_def)

lemma z_number_keeps_value:
  "status (z_number cs v) = Valid \<Longrightarrow> pdata (z_number cs v) \<noteq> JUndefined"
  by (cases v) (auto simp: z_number_def invalid_type_def checked_def split: if_splits)

lemma bufferSchema_keys:
  assumes "safeParse bufferSchema form = Inr d"
  shows "object_keys d = [''default_buffer_before'', ''default_buffer_after'', ''minimum_gap'',
           ''slot_interval_minutes'']"
proof -
  let ?shape = "[(''default_buffer_before'', z_number [num_min 0, num_max 120]),
     (''default_buffer_after'', z_number [num_min 0, num_max 120]),
     (''minimum_gap'', z_number [num_min 0, num_max 60]),
     (''slot_interval_minutes'', z_number [num_min 5, num_max 60])]"
  have v: "status (z_object ?shape form) = Valid" and d: "d = pdata (z_object ?shape form)"
    using assms by (auto simp: safeParse_def Let_def bufferSchema_def split: if_splits)
  from v obtain kvs where kvs: "form = JObj kvs"
    and fields: "\<forall>f \<in> set ?shape. status (snd f (get_field form (fst f))) = Valid"
    unfolding z_object_valid by blast
  have "\<forall>f \<in> set ?shape. pdata (snd f (get_field form (fst f))) \<noteq> JUndefined"
    using fields by (simp add: z_number_keeps_value)
  then have "map fst (parsed_fields ?shape form) = map fst ?shape"
    by (rule parsed_fields_all_kept)
  then show ?thesis
    unfolding d kvs by (simp add: z_object_def object_keys_def)
qed

lemma z_number_data:
  "pdata (z_number cs v) = v"
  by (cases v) (auto simp: z_number_def invalid_type_def checked_def)

lemma bufferSchema_wire:
  assumes "safeParse bufferSchema form = Inr d"
  shows "json_wire d = d"
proof -
  have v: "status (bufferSchema form) = Valid" and d: "d = pdata (bufferSchema form)"
    using assms by (auto simp: safeParse_def Let_def split: if_splits)
  from v obtain kvs a b g i where kvs: "form = JObj kvs"
    and a: "get_field form ''default_buffer_before'' = JNum (Finite a)"
    and b: "get_field form ''default_buffer_after'' = JNum (Finite b)"
    and g: "get_field form ''minimum_gap'' = JNum (Finite g)"
    and i: "get_field form ''slot_interval_minutes'' = JNum (Finite i)"
    unfolding bufferSchema_def z_object_valid by (auto simp: z_number_range_valid)
  have "d = JObj [(''default_buffer_before'', JNum (Finite a)),
                  (''default_buffer_after'', JNum (Finite b)),
                  (''minimum_gap'', JNum (Finite g)),
                  (''slot_interval_minutes'', JNum (Finite i))]"
    unfolding d bufferSchema_def kvs
    using a b g i
    by (simp add: z_object_def parsed_fields_def parse_shape_def z_number_data kvs)
  then show ?thesis by simp
qed

lemma updateBufferMutation_sent:
  "sent (updateBufferMutation srv d c) = sent (snd (updateBufferSettings srv d c))"
  by (simp add: updateBufferMutation_def toast_success_def invalidateQueries_def
        split: prod.split sum.split)

lemma sample_buffer_form_parsed:
  "safeParse bufferSchema sample_buffer_form = Inr sample_buffer_form"
  by (simp add: sample_buffer_form_def safeParse_def bufferSchema_def z_object_def parse_shape_def
        parsed_fields_def z_number_def checked_def num_min_def num_max_def merge_status_def
        get_field_def has_key_def)

text \<open>
  Claim C5, as amended. The buffer settings that the availability page sends to
  \<^verbatim>\<open>/availability/buffer/\<close> are the parsed data of the buffer form, an object with exactly
  the fields \<^verbatim>\<open>default_buffer_before\<close>, \<^verbatim>\<open>default_buffer_after\<close>, \<^verbatim>\<open>minimum_gap\<close> and
  \<^verbatim>\<open>slot_interval_minutes\<close>; the \<^verbatim>\<open>BufferTime\<close> record that a GET of the same endpoint is
  declared to answer with has these four as numbers and, besides them, the strings
  \<^verbatim>\<open>created_at\<close> and \<^verbatim>\<open>updated_at\<close>.
\<close>

theorem buffer_settings_fields:
  "(\<forall>d. safeParse bufferSchema form = Inr d \<longrightarrow>
      verb (last (sent (bufferForm_handleSubmit srv form c))) = PATCH \<and>
      url (last (sent (bufferForm_handleSubmit srv form c))) = ''/availability/buffer/'' \<and>
      body (last (sent (bufferForm_handleSubmit srv form c))) = d \<and>
      object_keys d = [''default_buffer_before'', ''default_buffer_after'', ''minimum_gap'',
        ''slot_interval_minutes'']) \<and>
   (conforms BufferTime v \<longrightarrow>
      (\<exists>a b g i. get_field v ''default_buffer_before'' = JNum a \<and>
         get_field v ''default_buffer_after'' = JNum b \<and>
         get_field v ''minimum_gap'' = JNum g \<and>
         get_field v ''slot_interval_minutes'' = JNum i) \<and>
      (\<exists>s t. get_field v ''created_at'' = JStr s \<and> get_field v ''updated_at'' = JStr t)) \<and>
   declared_fields BufferTime = [''default_buffer_before'', ''default_buffer_after'',
      ''minimum_gap'', ''slot_interval_minutes'', ''created_at'', ''updated_at''] \<and>
   verb (last (sent (snd (getBufferSettings srv c)))) = GET \<and>
   url (last (sent (snd (getBufferSettings srv c)))) = ''/availability/buffer/''"
proof (intro conjI allI impI)
  fix d assume p: "safeParse bufferSchema form = Inr d"
  have s: "sent (bufferForm_handleSubmit srv form c) =
           sent c @ [request_interceptor c \<lparr>verb = PATCH, baseURL = ''http://localhost:8000/api/v1'',
              url = ''/availability/buffer/'', headers = [], params = [], body = d\<rparr>]"
    by (simp add: bufferForm_handleSubmit_def p onBufferSubmit_def updateBufferMutation_sent
          updateBufferSettings_def api_patch_def api_request_sent bufferSchema_wire [OF p])
  show "verb (last (sent (bufferForm_handleSubmit srv form c))) = PATCH"
    by (simp add: s request_interceptor_keeps)
  show "url (last (sent (bufferForm_handleSubmit srv form c))) = ''/availability/buffer/''"
    by (simp add: s request_interceptor_keeps)
  show "body (last (sent (bufferForm_handleSubmit srv form c))) = d"
    by (simp add: s request_interceptor_keeps)
  show "object_keys d = [''default_buffer_before'', ''default_buffer_after'', ''minimum_gap'',
        ''slot_interval_minutes'']"
    using p by (rule bufferSchema_keys)
next
  assume c: "conforms BufferTime v"
  note u = c [unfolded BufferTime_def]
  have "conforms TNumber (get_field v ''default_buffer_before'')"
       "conforms TNumber (get_field v ''default_buffer_after'')"
       "conforms TNumber (get_field v ''minimum_gap'')"
       "conforms TNumber (get_field v ''slot_interval_minutes'')"
    using conforms_required [OF u, of _ TNumber] by simp_all
  then show "\<exists>a b g i. get_field v ''default_buffer_before'' = JNum a \<and>
         get_field v ''default_buffer_after'' = JNum b \<and>
         get_field v ''minimum_gap'' = JNum g \<and>
         get_field v ''slot_interval_minutes'' = JNum i"
    unfolding conforms_number by blast
  have "conforms TString (get_field v ''created_at'')"
       "conforms TString (get_field v ''updated_at'')"
    using conforms_required [OF u, of _ TString] by simp_all
  then show "\<exists>s t. get_field v ''created_at'' = JStr s \<and> get_field v ''updated_at'' = JStr t"
    unfolding conforms_string by blast
next
  show "declared_fields BufferTime = [''default_buffer_before'', ''default_buffer_after'',
      ''minimum_gap'', ''slot_interval_minutes'', ''created_at'', ''updated_at'']"
    by (simp add: BufferTime_def)
  show "verb (last (sent (snd (getBufferSettings srv c)))) = GET"
    by (simp add: getBufferSettings_def api_get_def api_request_sent request_interceptor_keeps)
  show "url (last (sent (snd (getBufferSettings srv c)))) = ''/availability/buffer/''"
    by (simp add: getBufferSettings_def api_get_def api_request_sent request_interceptor_keeps)
qed

theorem buffer_settings_fields_witness:
  "safeParse bufferSchema sample_buffer_form = Inr sample_buffer_form \<and>
   body (last (sent (bufferForm_handleSubmit sample_server sample_buffer_form sample_client))) =
     sample_buffer_form \<and>
   conforms BufferTime sample_buffer \<and>
   (\<exists>s t. get_field sample_buffer ''created_at'' = JStr s \<and>
          get_field sample_buffer ''updated_at'' = JStr t)"
proof -
  have c: "conforms BufferTime sample_buffer"
    by (simp add: BufferTime_def sample_buffer_def get_field_def)
  show ?thesis
    using buffer_settings_fields [of sample_buffer_form sample_server sample_client sample_buffer]
      sample_buffer_form_parsed c
    by blast
qed

text \<open>
  The claim as stated fails: neither the record the page sends nor a record of the
  declared shape has the field list \<^verbatim>\<open>buffer_before\<close>, \<^verbatim>\<open>buffer_after\<close>, \<^verbatim>\<open>minimum_gap\<close>,
  \<^verbatim>\<open>slot_interval_minutes\<close>.
\<close>

theorem buffer_settings_not_short_names:
  "safeParse bufferSchema sample_buffer_form = Inr sample_buffer_form \<and>
   object_keys (body (last (sent (bufferForm_handleSubmit sample_server sample_buffer_form
      sample_client)))) \<noteq> [''buffer_before'', ''buffer_after'', ''minimum_gap'',
      ''slot_interval_minutes''] \<and>
   conforms BufferTime sample_buffer \<and>
   object_keys sample_buffer \<noteq> [''buffer_before'', ''buffer_after'', ''minimum_gap'',
      ''slot_interval_minutes'']"
proof -
  have p: "safeParse bufferSchema sample_buffer_form = Inr sample_buffer_form"
    by (rule sample_buffer_form_parsed)
  have "body (last (sent (bufferForm_handleSubmit sample_server sample_buffer_form sample_client))) =
        sample_buffer_form"
    by (simp add: bufferForm_handleSubmit_def p onBufferSubmit_def updateBufferMutation_sent
          updateBufferSettings_def api_patch_def api_request_sent request_interceptor_keeps
          bufferSchema_wire [OF p])
  moreover have "object_keys sample_buffer_form \<noteq> [''buffer_before'', ''buffer_after'',
      ''minimum_gap'', ''slot_interval_minutes'']"
    by (simp add: sample_buffer_form_def object_keys_def)
  moreover have "conforms BufferTime sample_buffer"
    by (simp add: BufferTime_def sample_buffer_def get_field_def)
  moreover have "object_keys sample_buffer \<noteq> [''buffer_before'', ''buffer_after'',
      ''minimum_gap'', ''slot_interval_minutes'']"
    by (simp add: sample_buffer_def object_keys_def)
  ultimately show ?thesis using p by simp
qed


section \<open>The cache layer: hits, round trip and invalidation\<close>

lemma store_fields:
  "rules (store compute k s) = rules s"
  "generation (store compute k s) = generation s"
  "entries (store compute k s) k = Some \<lparr>entry_slots = compute (rules s (organizer_id k)) k,
      stamp = generation s (organizer_id k)\<rparr>"
  "k' \<noteq> k \<Longrightarrow> entries (store compute k s) k' = entries s k'"
  by (simp_all add: store_def)

lemma sound_init: "sound compute (init rs)"
  by (simp add: sound_def init_def)

lemma sound_store: "sound compute s \<Longrightarrow> sound compute (store compute k s)"
  by (auto simp: sound_def store_def)

lemma get_state: "snd (get compute k s) = s \<or> snd (get compute k s) = store compute k s"
  by (simp add: get_def split: option.split)

lemma sound_get: "sound compute s \<Longrightarrow> sound compute (snd (get compute k s))"
  using get_state [of compute k s] sound_store [of compute s k] by auto

lemma sound_fold_store:
  "sound compute s \<Longrightarrow> sound compute (fold (\<lambda>t. store compute (f t)) ts s)"
  by (induction ts arbitrary: s) (simp_all add: sound_store)

lemma sound_precompute:
  "sound compute s \<Longrightarrow> sound compute (precompute compute targets org n s)"
  by (simp add: precompute_def sound_fold_store)

lemma sound_invalidate: "sound compute s \<Longrightarrow> sound compute (invalidate org s)"
  by (fastforce simp: sound_def invalidate_def)

lemma sound_mutate: "sound compute s \<Longrightarrow> sound compute (mutate org change s)"
  by (fastforce simp: sound_def mutate_def invalidate_def)

lemma sound_expire: "sound compute s \<Longrightarrow> sound compute (expire k s)"
  by (auto simp: sound_def expire_def)

lemma sound_step: "sound compute s \<Longrightarrow> sound compute (step compute targets c s)"
  by (cases c)
    (simp_all add: sound_get sound_precompute sound_invalidate sound_mutate sound_expire)

lemma sound_run: "sound compute s \<Longrightarrow> sound compute (run compute targets calls s)"
  unfolding run_def by (induction calls arbitrary: s) (simp_all add: sound_step)

lemma get_hit:
  "fst (get compute k s) = (v, True) \<Longrightarrow>
   \<exists>e. entries s k = Some e \<and> stamp e = generation s (organizer_id k) \<and> entry_slots e = v"
  by (auto simp: get_def split: option.splits if_splits)

lemma fold_store_fields:
  "rules (fold (\<lambda>t. store compute (f t)) ts s) = rules s \<and>
   generation (fold (\<lambda>t. store compute (f t)) ts s) = generation s"
  by (induction ts arbitrary: s) (simp_all add: store_fields)

lemma fold_store_entry:
  "t \<in> set ts \<Longrightarrow>
   entries (fold (\<lambda>t. store compute (f t)) ts s) (f t) =
     Some \<lparr>entry_slots = compute (rules s (organizer_id (f t))) (f t),
           stamp = generation s (organizer_id (f t))\<rparr>"
proof (induction ts arbitrary: s rule: rev_induct)
  case Nil
  then show ?case by simp
next
  case (snoc x xs)
  show ?case
  proof (cases "f x = f t")
    case True
    then show ?thesis
      using fold_store_fields [of compute f xs s] by (simp add: store_fields)
  next
    case False
    then have "t \<in> set xs" using snoc.prems by auto
    then show ?thesis
      using snoc.IH [of s] False by (simp add: store_fields)
  qed
qed

text \<open>
  Claim C1. In every state the engine reaches from an empty cache, a cache hit of
  \<^verbatim>\<open>get\<close> serves exactly the slot list that the cold computation gives for the same key
  and the organizer's current rules; and \<^verbatim>\<open>get\<close> on a target of a \<^verbatim>\<open>precompute\<close> job that
  has just run, the rules unchanged, is a hit with exactly the cold computation for that
  key.
\<close>

theorem cache_hit_equals_cold_computation:
  assumes "s = run compute targets calls (init rs)"
  shows "(\<forall>v. fst (get compute k s) = (v, True) \<longrightarrow> v = compute (rules s (organizer_id k)) k) \<and>
         (\<forall>t \<in> set (targets (rules s org) n).
            fst (get compute (target_key org t) (precompute compute targets org n s)) =
              (compute (rules s org) (target_key org t), True))"
proof (intro conjI allI impI ballI)
  have snd: "sound compute s"
    unfolding assms by (rule sound_run [OF sound_init])
  fix v assume "fst (get compute k s) = (v, True)"
  then obtain e where "entries s k = Some e" "stamp e = generation s (organizer_id k)"
      "entry_slots e = v"
    using get_hit by blast
  then show "v = compute (rules s (organizer_id k)) k"
    using snd unfolding sound_def by blast
next
  fix t assume t: "t \<in> set (targets (rules s org) n)"
  let ?s' = "precompute compute targets org n s"
  have o: "organizer_id (target_key org t) = org"
    by (simp add: target_key_def)
  have "entries ?s' (target_key org t) =
          Some \<lparr>entry_slots = compute (rules s org) (target_key org t), stamp = generation s org\<rparr>"
    unfolding precompute_def using fold_store_entry [OF t, of compute "target_key org" s] o by simp
  moreover have "generation ?s' = generation s"
    unfolding precompute_def using fold_store_fields by blast
  ultimately show "fst (get compute (target_key org t) ?s') =
              (compute (rules s org) (target_key org t), True)"
    by (simp add: get_def o)
qed

theorem cache_hit_equals_cold_computation_witness:
  "fst (get sample_cold sample_key
          (run sample_cold sample_targets [Precompute ''ada'' 14, Invalidate ''ada'', Get sample_key]
             (init sample_rules))) =
     (sample_cold ''weekdays'' sample_key, True) \<and>
   (''intro-call'', (''2024-12-02'', ''2024-12-03''), ''Europe/Paris'')
     \<in> set (sample_targets (rules (run sample_cold sample_targets [] (init sample_rules)) ''ada'') 14) \<and>
   fst (get sample_cold sample_key
          (precompute sample_cold sample_targets ''ada'' 14
             (run sample_cold sample_targets [] (init sample_rules)))) =
     (sample_cold ''weekdays'' sample_key, True)"
proof -
  let ?s = "run sample_cold sample_targets [] (init sample_rules)"
  let ?s1 = "run sample_cold sample_targets
               [Precompute ''ada'' 14, Invalidate ''ada'', Get sample_key] (init sample_rules)"
  let ?t = "(''intro-call'', (''2024-12-02'', ''2024-12-03''), ''Europe/Paris'')"
  have r: "rules ?s ''ada'' = ''weekdays''"
    by (simp add: run_def init_def sample_rules_def)
  have t: "?t \<in> set (sample_targets (rules ?s ''ada'') 14)"
    by (simp add: r sample_targets_def)
  have k: "target_key ''ada'' ?t = sample_key"
    by (simp add: target_key_def sample_key_def)
  have "fst (get sample_cold (target_key ''ada'' ?t)
               (precompute sample_cold sample_targets ''ada'' 14 ?s)) =
        (sample_cold (rules ?s ''ada'') (target_key ''ada'' ?t), True)"
    using cache_hit_equals_cold_computation [of ?s sample_cold sample_targets "[]" sample_rules
        sample_key "''ada''" 14] t
    by blast
  then have round_trip: "fst (get sample_cold sample_key
        (precompute sample_cold sample_targets ''ada'' 14 ?s)) =
        (sample_cold ''weekdays'' sample_key, True)"
    using r k by simp
  have hit: "fst (get sample_cold sample_key ?s1) =
             (entry_slots (the (entries ?s1 sample_key)), True)"
    by (simp add: run_def init_def precompute_def sample_targets_def target_key_def store_def
          invalidate_def get_def sample_key_def sample_rules_def)
  have o: "organizer_id sample_key = ''ada''"
    by (simp add: sample_key_def)
  have r1: "rules ?s1 ''ada'' = ''weekdays''"
    by (simp add: run_def init_def precompute_def sample_targets_def target_key_def store_def
          invalidate_def get_def sample_key_def sample_rules_def)
  have "entry_slots (the (entries ?s1 sample_key)) =
        sample_cold (rules ?s1 (organizer_id sample_key)) sample_key"
    using cache_hit_equals_cold_computation [of ?s1 sample_cold sample_targets
        "[Precompute ''ada'' 14, Invalidate ''ada'', Get sample_key]" sample_rules
        sample_key "''ada''" 14] hit
    by blast
  then have "fst (get sample_cold sample_key ?s1) = (sample_cold ''weekdays'' sample_key, True)"
    using hit o r1 by simp
  then show ?thesis using t round_trip by blast
qed

lemma generation_step: "generation s org \<le> generation (step compute targets c s) org"
proof (cases c)
  case (Get k)
  then show ?thesis using get_state [of compute k s] by (auto simp: store_fields)
next
  case (Precompute o' n)
  then show ?thesis by (simp add: precompute_def fold_store_fields)
qed (simp_all add: invalidate_def mutate_def expire_def)

lemma generation_run: "generation s org \<le> generation (run compute targets calls s) org"
  unfolding run_def
proof (induction calls arbitrary: s)
  case Nil
  then show ?case by simp
next
  case (Cons c cs)
  have "generation s org \<le> generation (step compute targets c s) org"
    by (rule generation_step)
  also have "\<dots> \<le> generation (fold (step compute targets) cs (step compute targets c s)) org"
    by (rule Cons.IH)
  finally show ?case by simp
qed

text \<open>
  Claim C2. Take any state the engine reaches, commit a mutation of a rule of organizer
  O there, and let any calls follow. When a later query for O is a cache hit, the entry
  it serves carries a stamp above O's generation before the mutation and above the
  stamp of every entry of O that the cache held before the mutation, so it was computed
  after the mutation; and its slots are the cold computation for O's rules at the time
  of the query.
\<close>

theorem no_stale_hit_after_mutation:
  assumes before: "s = run compute targets earlier (init rs)"
    and after: "s' = run compute targets later (mutate org change s)"
    and hit: "fst (get compute k s') = (v, True)"
    and org: "organizer_id k = org"
  shows "\<exists>e. entries s' k = Some e \<and> entry_slots e = v \<and>
             generation s org < stamp e \<and>
             (\<forall>k0 e0. entries s k0 = Some e0 \<and> organizer_id k0 = org \<longrightarrow> stamp e0 < stamp e) \<and>
             v = compute (rules s' org) k"
proof -
  have s: "sound compute s"
    unfolding before by (rule sound_run [OF sound_init])
  then have s': "sound compute s'"
    unfolding after by (intro sound_run sound_mutate)
  obtain e where e: "entries s' k = Some e" "stamp e = generation s' org" "entry_slots e = v"
    using get_hit [OF hit] org by auto
  have "generation (mutate org change s) org = Suc (generation s org)"
    by (simp add: mutate_def invalidate_def)
  then have g: "generation s org < generation s' org"
    using generation_run [of "mutate org change s" org compute targets later] after by simp
  have old: "\<forall>k0 e0. entries s k0 = Some e0 \<and> organizer_id k0 = org \<longrightarrow> stamp e0 < stamp e"
    using s g e(2) unfolding sound_def by fastforce
  have "v = compute (rules s' org) k"
    using s' e org unfolding sound_def by blast
  then show ?thesis using e g old by auto
qed

theorem no_stale_hit_after_mutation_witness:
  "fst (get sample_cold sample_key
          (run sample_cold sample_targets [Get sample_key]
             (mutate ''ada'' (\<lambda>r. ''weekends'')
                (run sample_cold sample_targets [Precompute ''ada'' 14] (init sample_rules))))) =
     (sample_cold ''weekends'' sample_key, True) \<and>
   organizer_id sample_key = ''ada'' \<and>
   (\<exists>e. entries (run sample_cold sample_targets [Get sample_key]
             (mutate ''ada'' (\<lambda>r. ''weekends'')
                (run sample_cold sample_targets [Precompute ''ada'' 14] (init sample_rules))))
           sample_key = Some e \<and>
        entry_slots e = sample_cold ''weekends'' sample_key \<and>
        generation (run sample_cold sample_targets [Precompute ''ada'' 14] (init sample_rules))
          ''ada'' < stamp e)"
proof -
  let ?s = "run sample_cold sample_targets [Precompute ''ada'' 14] (init sample_rules)"
  let ?s' = "run sample_cold sample_targets [Get sample_key] (mutate ''ada'' (\<lambda>r. ''weekends'') ?s)"
  have hit: "fst (get sample_cold sample_key ?s') = (sample_cold ''weekends'' sample_key, True)"
    by (simp add: run_def init_def precompute_def sample_targets_def target_key_def store_def
          mutate_def invalidate_def get_def sample_key_def sample_rules_def)
  have org: "organizer_id sample_key = ''ada''"
    by (simp add: sample_key_def)
  have "\<exists>e. entries ?s' sample_key = Some e \<and> entry_slots e = sample_cold ''weekends'' sample_key \<and>
             generation ?s ''ada'' < stamp e"
    using no_stale_hit_after_mutation [OF refl refl hit org] by blast
  then show ?thesis using hit org by blast
qed

end
